theory Spec2Isabelle
  imports Complex_Main
begin

section \<open>Non-uniform WENO coefficient construction (nfweno.c)\<close>

text \<open>
  The embedding follows \<^verbatim>\<open>src/nfweno.c\<close>. Conventions:
  \<^item> \<^verbatim>\<open>dtype\<close> (a C double) is read as a real number: the arithmetic of the
    embedding is exact, rounding is not part of it. Division is only used for
    the reciprocal of the Lagrange denominator, which is non-zero on a strictly
    increasing grid. A later section embeds two of the passes over binary64
    numbers, for the one claim that is about the sign of a computed number.
  \<^item> C \<^verbatim>\<open>int\<close> values are mathematical integers; the index ranges of the
    loops are integer intervals \<open>[a..b]\<close> (both ends included), so the C loop
    \<^verbatim>\<open>for (i = a; i < b; i++)\<close> runs over \<open>[a..b - 1]\<close>.
  \<^item> A pointer to doubles (\<^verbatim>\<open>w.x\<close>, \<^verbatim>\<open>w.xi\<close>, \<^verbatim>\<open>w.c_ilrj\<close>, \<^verbatim>\<open>w.beta\<close>)
    and the pointer to polynomials \<^verbatim>\<open>w.c_irj_x\<close> are stores: functions from
    the element offset to the value held there. An assignment through the
    pointer is a function update.
  \<^item> Each pass assigns to one store only and never to the scalar fields, so the
    loops thread that store and read everything else from the argument.
\<close>

type_synonym dtype = real

subsection \<open>The polynomial value type\<close>

text \<open>
  Modelled from the spec: the struct \<^verbatim>\<open>poly\<close> is declared in the absent
  polynomial library. The spec: "Polynomial: ordered sequence of coefficients
  [c0..cn] in monomial basis (coefficient of x^i at index i) ... array length is
  always n+1". The macros of \<^verbatim>\<open>nfweno.c\<close> use its fields \<^verbatim>\<open>n\<close> (the
  degree) and \<^verbatim>\<open>p\<close> (the coefficients, \<^verbatim>\<open>p[z]\<close> for
  \<^verbatim>\<open>0 <= z <= n\<close>); \<open>poly_wf\<close> is the length invariant.
\<close>

record poly =
  poly_n :: nat
  poly_p :: "dtype list"

definition poly_wf :: "poly \<Rightarrow> bool" where
  "poly_wf q = (length (poly_p q) = Suc (poly_n q))"

text \<open>
  Modelled from the spec: \<^verbatim>\<open>poly_zero\<close> and \<^verbatim>\<open>poly_one\<close> live in the absent
  polynomial library. The spec: "zero(n) / one(n): additive/multiplicative
  identity polynomials of the working degree n".
\<close>

definition poly_zero :: "nat \<Rightarrow> poly" where
  "poly_zero d = \<lparr>poly_n = d, poly_p = replicate (Suc d) 0\<rparr>"

definition poly_one :: "nat \<Rightarrow> poly" where
  "poly_one d = \<lparr>poly_n = d, poly_p = 1 # replicate d 0\<rparr>"

text \<open>
  Modelled from the spec: \<^verbatim>\<open>poly_eval\<close> lives in the absent polynomial
  library. The spec: "evaluate(p, x): Horner-style evaluation".
\<close>

definition poly_eval :: "poly \<Rightarrow> dtype \<Rightarrow> dtype" where
  "poly_eval q t = foldr (\<lambda>c acc. c + t * acc) (poly_p q) 0"

text \<open>
  Modelled from the spec: \<^verbatim>\<open>poly_diff\<close> lives in the absent polynomial
  library. The spec: "differentiate(p, order): repeated symbolic
  differentiation; returns degree-reduced polynomial (degree n - order, clamped
  at 0, identically zero if order > n)".
\<close>

definition poly_diff1 :: "poly \<Rightarrow> poly" where
  "poly_diff1 q =
     (if poly_n q = 0 then poly_zero 0
      else \<lparr>poly_n = poly_n q - 1,
            poly_p = map (\<lambda>z. real (Suc z) * poly_p q ! Suc z) [0..<poly_n q]\<rparr>)"

definition poly_diff :: "poly \<Rightarrow> nat \<Rightarrow> poly" where
  "poly_diff q d = (poly_diff1 ^^ d) q"

text \<open>
  Modelled from the spec: \<^verbatim>\<open>poly_int\<close> lives in the absent polynomial
  library. The spec: "definite-integral(p, a, b): closed-form antiderivative
  evaluated at bounds; returns a scalar".
\<close>

definition poly_int :: "poly \<Rightarrow> dtype \<Rightarrow> dtype \<Rightarrow> dtype" where
  "poly_int q a b =
     (\<Sum>z\<leftarrow>[0..<Suc (poly_n q)]. poly_p q ! z / real (Suc z) * (b ^ Suc z - a ^ Suc z))"

text \<open>
  Modelled from the spec: \<^verbatim>\<open>poly_mult\<close> lives in the absent polynomial
  library. The spec: "multiply(p, q): full polynomial product, degree
  deg(p)+deg(q)".
\<close>

definition poly_coef :: "poly \<Rightarrow> nat \<Rightarrow> dtype" where
  "poly_coef q z = (if z \<le> poly_n q then poly_p q ! z else 0)"

definition poly_mult :: "poly \<Rightarrow> poly \<Rightarrow> poly" where
  "poly_mult q1 q2 =
     \<lparr>poly_n = poly_n q1 + poly_n q2,
      poly_p = map (\<lambda>z. \<Sum>i\<leftarrow>[0..<Suc z]. poly_coef q1 i * poly_coef q2 (z - i))
                   [0..<Suc (poly_n q1 + poly_n q2)]\<rparr>"

subsection \<open>The in-place macros\<close>

text \<open>
  \<^verbatim>\<open>inplace_poly_mult_xpa(p1, a)\<close>: the loop runs \<open>z\<close> from \<open>p1.n\<close> down to
  \<open>1\<close>, then the constant coefficient is scaled.
\<close>

definition inplace_poly_mult_xpa :: "poly \<Rightarrow> dtype \<Rightarrow> poly" where
  "inplace_poly_mult_xpa p1 a =
     (let c = fold (\<lambda>z c. c[z := c ! (z - 1) + a * c ! z])
                   (rev [1..<Suc (poly_n p1)]) (poly_p p1)
      in p1\<lparr>poly_p := c[0 := a * c ! 0]\<rparr>)"

text \<open>\<^verbatim>\<open>inplace_poly_add(p1, p2)\<close>: \<open>z\<close> runs from \<open>0\<close> to \<open>p1.n\<close>.\<close>

definition inplace_poly_add :: "poly \<Rightarrow> poly \<Rightarrow> poly" where
  "inplace_poly_add p1 p2 =
     p1\<lparr>poly_p := fold (\<lambda>z c. c[z := c ! z + poly_p p2 ! z])
                       [0..<Suc (poly_n p1)] (poly_p p1)\<rparr>"

text \<open>\<^verbatim>\<open>inplace_poly_scale(p1, a)\<close>: \<open>z\<close> runs from \<open>0\<close> to \<open>p1.n\<close>.\<close>

definition inplace_poly_scale :: "poly \<Rightarrow> dtype \<Rightarrow> poly" where
  "inplace_poly_scale p1 a =
     p1\<lparr>poly_p := fold (\<lambda>z c. c[z := c ! z * a]) [0..<Suc (poly_n p1)] (poly_p p1)\<rparr>"

subsection \<open>The work structure\<close>

text \<open>
  The struct \<^verbatim>\<open>weno\<close> is declared in the absent header \<^verbatim>\<open>nfweno.h\<close>; its
  fields are the ones \<^verbatim>\<open>py_nonuniform_coeffs\<close> assigns and the passes read.
\<close>

record weno =
  weno_k :: int
  weno_nx :: int
  weno_nc :: int
  weno_nxi :: int
  weno_x :: "int \<Rightarrow> dtype"
  weno_xi :: "int \<Rightarrow> dtype"
  weno_c_irj_x :: "int \<Rightarrow> poly"
  weno_c_ilrj :: "int \<Rightarrow> dtype"
  weno_beta :: "int \<Rightarrow> dtype"
  weno_csi :: int
  weno_csl :: int
  weno_csr :: int
  weno_csj :: int
  weno_bsi :: int
  weno_bsr :: int
  weno_bsm :: int
  weno_bsn :: int

text \<open>The cells of the outer loop of all three passes:
  \<^verbatim>\<open>for (int i=w.k-1; i<w.nc-(w.k-1); i++)\<close>.\<close>

definition cells :: "weno \<Rightarrow> int list" where
  "cells w = [weno_k w - 1 .. weno_nc w - (weno_k w - 1) - 1]"

text \<open>The flat offsets \<^verbatim>\<open>irj\<close>, \<^verbatim>\<open>ilrj\<close> and the offset into \<^verbatim>\<open>beta\<close>.\<close>

definition irj_of :: "int \<Rightarrow> int \<Rightarrow> int \<Rightarrow> int \<Rightarrow> int" where
  "irj_of k i r j = i * k * k + r * k + j"

definition ilrj_of :: "weno \<Rightarrow> int \<Rightarrow> int \<Rightarrow> int \<Rightarrow> int \<Rightarrow> int" where
  "ilrj_of w i l r j = weno_csi w * i + weno_csl w * l + weno_csr w * r + weno_csj w * j"

definition beta_of :: "weno \<Rightarrow> int \<Rightarrow> int \<Rightarrow> int \<Rightarrow> int \<Rightarrow> int" where
  "beta_of w i r m n' = weno_bsi w * i + weno_bsr w * r + weno_bsm w * m + weno_bsn w * n'"

subsection \<open>weno_recon_polys\<close>

text \<open>The local window: \<^verbatim>\<open>xlocal[j] = w.x[i-il+j] - w.x[i]\<close> for \<open>0 \<le> j < 2k\<close>,
  with \<open>il = k - 1\<close>. The grid offset read is \<open>x_index\<close>, the window offset read
  by the inner loops is \<open>xlocal_index\<close>.\<close>

definition x_index :: "int \<Rightarrow> int \<Rightarrow> int \<Rightarrow> int" where
  "x_index k i j = i - (k - 1) + j"

definition xlocal_index :: "int \<Rightarrow> int \<Rightarrow> int \<Rightarrow> int" where
  "xlocal_index k r n' = (k - 1) - r + n'"

definition xlocal_of :: "weno \<Rightarrow> int \<Rightarrow> dtype list" where
  "xlocal_of w i =
     map (\<lambda>j. weno_x w (x_index (weno_k w) i j) - weno_x w i) [0 .. 2 * weno_k w - 1]"

text \<open>One round of the innermost loop (over \<open>n\<close>); the state \<^verbatim>\<open>prd_n\<close>
  of the loop after the rounds \<open>ns\<close>, from \<^verbatim>\<open>poly_one(w.k-1)\<close>; and the loop,
  whose rounds are \<open>n = 0, ..., k\<close>.\<close>

definition prd_n_step :: "int \<Rightarrow> dtype list \<Rightarrow> int \<Rightarrow> int \<Rightarrow> int \<Rightarrow> int \<Rightarrow> poly \<Rightarrow> poly" where
  "prd_n_step k xlocal r l m n' prd_n =
     (if n' = l \<or> n' = m then prd_n
      else inplace_poly_mult_xpa prd_n (- (xlocal ! nat (xlocal_index k r n'))))"

definition prd_n_run :: "int \<Rightarrow> dtype list \<Rightarrow> int \<Rightarrow> int \<Rightarrow> int \<Rightarrow> int list \<Rightarrow> poly" where
  "prd_n_run k xlocal r l m ns =
     fold (prd_n_step k xlocal r l m) ns (poly_one (nat (k - 1)))"

definition prd_n_loop :: "int \<Rightarrow> dtype list \<Rightarrow> int \<Rightarrow> int \<Rightarrow> int \<Rightarrow> poly" where
  "prd_n_loop k xlocal r l m = prd_n_run k xlocal r l m [0..k]"

text \<open>The loop over \<open>m\<close> that accumulates \<^verbatim>\<open>sum_m\<close>.\<close>

definition sum_m_loop :: "int \<Rightarrow> dtype list \<Rightarrow> int \<Rightarrow> int \<Rightarrow> poly" where
  "sum_m_loop k xlocal r l =
     fold (\<lambda>m sum_m. if m = l then sum_m
                      else inplace_poly_add sum_m (prd_n_loop k xlocal r l m))
          [0..k] (poly_zero (nat (k - 1)))"

text \<open>The loop over \<open>m\<close> that accumulates the denominator \<^verbatim>\<open>a\<close>.\<close>

definition a_loop :: "int \<Rightarrow> dtype list \<Rightarrow> int \<Rightarrow> int \<Rightarrow> dtype" where
  "a_loop k xlocal r l =
     fold (\<lambda>m a. if m = l then a
                  else a * (xlocal ! nat (xlocal_index k r l) - xlocal ! nat (xlocal_index k r m)))
          [0..k] 1"

text \<open>The body of the loop over \<open>j\<close>: the slot \<^verbatim>\<open>irj\<close> is zeroed, then every
  \<open>l\<close> from \<open>j + 1\<close> to \<open>k\<close> adds its scaled \<^verbatim>\<open>sum_m\<close> to it in place.\<close>

definition recon_l_step :: "int \<Rightarrow> dtype list \<Rightarrow> int \<Rightarrow> int \<Rightarrow> int \<Rightarrow> (int \<Rightarrow> poly) \<Rightarrow> (int \<Rightarrow> poly)" where
  "recon_l_step k xlocal r irj l c =
     (let sum_m = sum_m_loop k xlocal r l;
          a = 1 / a_loop k xlocal r l;
          sum_m = inplace_poly_scale sum_m a
      in c(irj := inplace_poly_add (c irj) sum_m))"

definition recon_j_step :: "int \<Rightarrow> dtype list \<Rightarrow> int \<Rightarrow> int \<Rightarrow> int \<Rightarrow> (int \<Rightarrow> poly) \<Rightarrow> (int \<Rightarrow> poly)" where
  "recon_j_step k xlocal i r j c =
     (let irj = irj_of k i r j
      in fold (recon_l_step k xlocal r irj) [j + 1 .. k] (c(irj := poly_zero (nat (k - 1)))))"

definition recon_i_step :: "weno \<Rightarrow> int \<Rightarrow> (int \<Rightarrow> poly) \<Rightarrow> (int \<Rightarrow> poly)" where
  "recon_i_step w i c =
     (let k = weno_k w; xlocal = xlocal_of w i
      in fold (\<lambda>r. fold (recon_j_step k xlocal i r) [0 .. k - 1]) [0 .. k - 1] c)"

definition weno_recon_polys :: "weno \<Rightarrow> weno" where
  "weno_recon_polys w0 =
     w0\<lparr>weno_c_irj_x := fold (recon_i_step w0) (cells w0) (weno_c_irj_x w0)\<rparr>"

subsection \<open>weno_recon_coefs\<close>

definition coefs_n_step :: "weno \<Rightarrow> int \<Rightarrow> int \<Rightarrow> int \<Rightarrow> int \<Rightarrow> (int \<Rightarrow> dtype) \<Rightarrow> (int \<Rightarrow> dtype)" where
  "coefs_n_step w i r j n' c =
     (let xi = 0.5 * (1.0 + weno_xi w n') * (weno_x w (i + 1) - weno_x w i);
          ilrj = ilrj_of w i n' r j;
          irj = irj_of (weno_k w) i r j
      in c(ilrj := poly_eval (weno_c_irj_x w irj) xi))"

definition coefs_i_step :: "weno \<Rightarrow> int \<Rightarrow> (int \<Rightarrow> dtype) \<Rightarrow> (int \<Rightarrow> dtype)" where
  "coefs_i_step w i c =
     fold (\<lambda>r. fold (\<lambda>j. fold (coefs_n_step w i r j) [0 .. weno_nxi w - 1])
                     [0 .. weno_k w - 1])
          [0 .. weno_k w - 1] c"

definition weno_recon_coefs :: "weno \<Rightarrow> weno" where
  "weno_recon_coefs w0 =
     w0\<lparr>weno_c_ilrj := fold (coefs_i_step w0) (cells w0) (weno_c_ilrj w0)\<rparr>"

subsection \<open>weno_smoothness_coefs\<close>

text \<open>The loop over the derivative order \<open>d\<close>; its state is \<^verbatim>\<open>(pm, pn, l2)\<close>.\<close>

definition smooth_d_step :: "int \<Rightarrow> dtype \<Rightarrow> int \<Rightarrow> poly \<times> poly \<times> dtype \<Rightarrow> poly \<times> poly \<times> dtype" where
  "smooth_d_step multi dx d s =
     (case s of (pm, pn, l2) \<Rightarrow>
        let pm = poly_diff pm 1;
            pn = poly_diff pn 1
        in (pm, pn,
            l2 + of_int multi * dx ^ nat (2 * d - 1) * poly_int (poly_mult pm pn) 0.0 dx))"

definition smooth_l2 :: "int \<Rightarrow> dtype \<Rightarrow> int \<Rightarrow> poly \<Rightarrow> poly \<Rightarrow> dtype" where
  "smooth_l2 k dx multi pm pn = snd (snd (fold (smooth_d_step multi dx) [1 .. k - 1] (pm, pn, 0.0)))"

definition smooth_n_step :: "weno \<Rightarrow> int \<Rightarrow> dtype \<Rightarrow> int \<Rightarrow> int \<Rightarrow> int \<Rightarrow> (int \<Rightarrow> dtype) \<Rightarrow> (int \<Rightarrow> dtype)" where
  "smooth_n_step w i dx r m n' b =
     (let k = weno_k w;
          irm = irj_of k i r m;
          irn = irj_of k i r n';
          multi = (if m = n' then 1 else 2);
          pm = weno_c_irj_x w irm;
          pn = weno_c_irj_x w irn;
          l2 = smooth_l2 k dx multi pm pn
      in b(beta_of w i r m n' := l2))"

definition smooth_i_step :: "weno \<Rightarrow> int \<Rightarrow> (int \<Rightarrow> dtype) \<Rightarrow> (int \<Rightarrow> dtype)" where
  "smooth_i_step w i b =
     (let dx = weno_x w (i + 1) - weno_x w i
      in fold (\<lambda>r. fold (\<lambda>m. fold (smooth_n_step w i dx r m) [m .. weno_k w - 1])
                       [0 .. weno_k w - 1])
              [0 .. weno_k w - 1] b)"

definition weno_smoothness_coefs :: "weno \<Rightarrow> weno" where
  "weno_smoothness_coefs w0 =
     w0\<lparr>weno_beta := fold (smooth_i_step w0) (cells w0) (weno_beta w0)\<rparr>"

subsection \<open>py_nonuniform_coeffs\<close>

text \<open>
  The array objects of the host runtime: number of dimensions, element
  type number, extents and strides in bytes (one of each per dimension), and
  the data seen through \<^verbatim>\<open>(double *) PyArray_DATA\<close>. \<^verbatim>\<open>PyArray_DOUBLE\<close> is
  the runtime's type number for C doubles and \<^verbatim>\<open>sizeof(double)\<close> is 8; the
  strides of an array of doubles are multiples of 8.
\<close>

record ndarray =
  arr_nd :: int
  arr_type_num :: int
  arr_dims :: "int list"
  arr_strides :: "int list"
  arr_data :: "int \<Rightarrow> dtype"

definition PyArray_DOUBLE :: int where
  "PyArray_DOUBLE = 12"

definition sizeof_double :: int where
  "sizeof_double = 8"

datatype py_error = ValueError string

datatype py_value = Py_None

text \<open>
  The three passes in the order of the call, and the work structure the call
  builds. \<^verbatim>\<open>calloc\<close> gives polynomials whose bytes are all zero.
\<close>

definition weno_passes :: "weno \<Rightarrow> weno" where
  "weno_passes w = weno_smoothness_coefs (weno_recon_coefs (weno_recon_polys w))"

definition weno_init :: "int \<Rightarrow> ndarray \<Rightarrow> ndarray \<Rightarrow> ndarray \<Rightarrow> ndarray \<Rightarrow> weno" where
  "weno_init k xi_py x_py c_py beta_py =
     (let nx = arr_dims x_py ! 0; nxi = arr_dims xi_py ! 0
      in \<lparr>weno_k = k, weno_nx = nx, weno_nc = nx - 1, weno_nxi = nxi,
          weno_x = arr_data x_py, weno_xi = arr_data xi_py,
          weno_c_irj_x = (\<lambda>_. \<lparr>poly_n = 0, poly_p = [0]\<rparr>),
          weno_c_ilrj = arr_data c_py, weno_beta = arr_data beta_py,
          weno_csi = arr_strides c_py ! 0 div sizeof_double,
          weno_csl = arr_strides c_py ! 1 div sizeof_double,
          weno_csr = arr_strides c_py ! 2 div sizeof_double,
          weno_csj = arr_strides c_py ! 3 div sizeof_double,
          weno_bsi = arr_strides beta_py ! 0 div sizeof_double,
          weno_bsr = arr_strides beta_py ! 1 div sizeof_double,
          weno_bsm = arr_strides beta_py ! 2 div sizeof_double,
          weno_bsn = arr_strides beta_py ! 3 div sizeof_double\<rparr>)"

text \<open>
  The call, after \<^verbatim>\<open>PyArg_ParseTuple\<close> has delivered \<open>k\<close> and the four
  array objects (its failure returns before anything else happens). The
  result is the returned value or the error set, with the contents of the two
  output buffers \<open>c\<close> and \<open>beta\<close> after the call.
\<close>

definition py_nonuniform_coeffs ::
  "int \<Rightarrow> ndarray \<Rightarrow> ndarray \<Rightarrow> ndarray \<Rightarrow> ndarray
     \<Rightarrow> (py_error + py_value) \<times> (int \<Rightarrow> dtype) \<times> (int \<Rightarrow> dtype)" where
  "py_nonuniform_coeffs k xi_py x_py c_py beta_py =
     (if arr_nd x_py \<noteq> 1 \<or> arr_type_num x_py \<noteq> PyArray_DOUBLE then
        (Inl (ValueError ''x must be one-dimensional and of type double''),
         arr_data c_py, arr_data beta_py)
      else if arr_nd xi_py \<noteq> 1 \<or> arr_type_num xi_py \<noteq> PyArray_DOUBLE then
        (Inl (ValueError ''xi must be one-dimensional and of type double''),
         arr_data c_py, arr_data beta_py)
      else if arr_nd c_py \<noteq> 4 \<or> arr_type_num c_py \<noteq> PyArray_DOUBLE then
        (Inl (ValueError ''c must be four-dimensional and of type double''),
         arr_data c_py, arr_data beta_py)
      else if arr_nd beta_py \<noteq> 4 \<or> arr_type_num beta_py \<noteq> PyArray_DOUBLE then
        (Inl (ValueError ''beta must be four-dimensional and of type double''),
         arr_data c_py, arr_data beta_py)
      else
        (let w = weno_passes (weno_init k xi_py x_py c_py beta_py)
         in (Inr Py_None, weno_c_ilrj w, weno_beta w)))"

subsection \<open>The input conditions of the spec\<close>

text \<open>
  The size conditions as the spec words them: the grid has \<open>nx \<ge> 2k\<close>
  boundaries, the reconstruction tensor has the extents \<open>(nc, nxi, k, k)\<close>
  and the smoothness tensor the extents \<open>(nc, k, k, k)\<close>, with \<open>k \<ge> 1\<close>.
\<close>

definition spec_sizes_consistent :: "int \<Rightarrow> ndarray \<Rightarrow> ndarray \<Rightarrow> ndarray \<Rightarrow> ndarray \<Rightarrow> bool" where
  "spec_sizes_consistent k xi_py x_py c_py beta_py =
     (let nx = arr_dims x_py ! 0; nc = nx - 1; nxi = arr_dims xi_py ! 0
      in 1 \<le> k \<and> 2 * k \<le> nx \<and> arr_dims c_py = [nc, nxi, k, k] \<and>
         arr_dims beta_py = [nc, k, k, k])"

text \<open>The four checks \<^verbatim>\<open>py_nonuniform_coeffs\<close> makes: some array has the
  wrong number of dimensions or the wrong element type.\<close>

definition type_or_rank_wrong :: "ndarray \<Rightarrow> ndarray \<Rightarrow> ndarray \<Rightarrow> ndarray \<Rightarrow> bool" where
  "type_or_rank_wrong xi_py x_py c_py beta_py =
     (arr_nd x_py \<noteq> 1 \<or> arr_type_num x_py \<noteq> PyArray_DOUBLE \<or>
      arr_nd xi_py \<noteq> 1 \<or> arr_type_num xi_py \<noteq> PyArray_DOUBLE \<or>
      arr_nd c_py \<noteq> 4 \<or> arr_type_num c_py \<noteq> PyArray_DOUBLE \<or>
      arr_nd beta_py \<noteq> 4 \<or> arr_type_num beta_py \<noteq> PyArray_DOUBLE)"

text \<open>The inputs the spec wants rejected: the three classes of its taxonomy.\<close>

definition spec_must_reject :: "int \<Rightarrow> ndarray \<Rightarrow> ndarray \<Rightarrow> ndarray \<Rightarrow> ndarray \<Rightarrow> bool" where
  "spec_must_reject k xi_py x_py c_py beta_py =
     (type_or_rank_wrong xi_py x_py c_py beta_py \<or>
      \<not> spec_sizes_consistent k xi_py x_py c_py beta_py)"

subsection \<open>Example inputs\<close>

text \<open>The scenario of the spec: \<open>k = 2\<close>, the grid \<open>[0,1,2,3,4]\<close>, the single
  evaluation point \<open>0\<close>, contiguous output tensors filled with zeros.\<close>

definition weno_ex :: weno where
  "weno_ex = \<lparr>weno_k = 2, weno_nx = 5, weno_nc = 4, weno_nxi = 1,
          weno_x = (\<lambda>i. of_int i), weno_xi = (\<lambda>_. 0),
          weno_c_irj_x = (\<lambda>_. \<lparr>poly_n = 0, poly_p = [0]\<rparr>),
          weno_c_ilrj = (\<lambda>_. 0), weno_beta = (\<lambda>_. 0),
          weno_csi = 4, weno_csl = 4, weno_csr = 2, weno_csj = 1,
          weno_bsi = 8, weno_bsr = 4, weno_bsm = 2, weno_bsn = 1\<rparr>"

definition x_ex :: ndarray where
  "x_ex = \<lparr>arr_nd = 1, arr_type_num = 12, arr_dims = [5], arr_strides = [8],
           arr_data = (\<lambda>i. of_int i)\<rparr>"

definition xi_ex :: ndarray where
  "xi_ex = \<lparr>arr_nd = 1, arr_type_num = 12, arr_dims = [1], arr_strides = [8],
            arr_data = (\<lambda>_. 0)\<rparr>"

definition c_ex :: ndarray where
  "c_ex = \<lparr>arr_nd = 4, arr_type_num = 12, arr_dims = [4, 1, 2, 2],
           arr_strides = [32, 32, 16, 8], arr_data = (\<lambda>_. 0)\<rparr>"

definition beta_ex :: ndarray where
  "beta_ex = \<lparr>arr_nd = 4, arr_type_num = 12, arr_dims = [4, 2, 2, 2],
              arr_strides = [64, 32, 16, 8], arr_data = (\<lambda>_. 0)\<rparr>"

text \<open>A reconstruction tensor with one cell too many, and a two-dimensional grid.\<close>

definition c_wide_ex :: ndarray where
  "c_wide_ex = c_ex\<lparr>arr_dims := [5, 1, 2, 2]\<rparr>"

definition x_2d_ex :: ndarray where
  "x_2d_ex = \<lparr>arr_nd = 2, arr_type_num = 12, arr_dims = [5, 1], arr_strides = [8, 8],
           arr_data = (\<lambda>i. of_int i)\<rparr>"

text \<open>The entry \<open>c[i=1, l=0, r, j]\<close> of the reconstruction tensor after the
  call of the scenario.\<close>

definition example_c :: "int \<Rightarrow> int \<Rightarrow> dtype" where
  "example_c r j =
     fst (snd (py_nonuniform_coeffs 2 xi_ex x_ex c_ex beta_ex))
       (ilrj_of (weno_init 2 xi_ex x_ex c_ex beta_ex) 1 0 r j)"

text \<open>The degree of a polynomial is below \<open>d\<close>: every coefficient from
  \<open>x^d\<close> on is zero.\<close>

definition poly_degree_less :: "poly \<Rightarrow> nat \<Rightarrow> bool" where
  "poly_degree_less q d = list_all (\<lambda>c. c = 0) (drop d (poly_p q))"

text \<open>The indices \<open>n\<close> of a list that the innermost loop does not
  skip (\<^verbatim>\<open>if ((n==l) || (n==m)) continue;\<close>).\<close>

abbreviation kept :: "int \<Rightarrow> int \<Rightarrow> int list \<Rightarrow> int list" where
  "kept l m ns \<equiv> filter (\<lambda>n'. n' \<noteq> l \<and> n' \<noteq> m) ns"

text \<open>The polynomial the body of the loop over \<open>j\<close> leaves in the slot
  \<^verbatim>\<open>irj\<close>: the zero polynomial with the scaled \<^verbatim>\<open>sum_m\<close> of every \<open>l\<close> added.\<close>

definition recon_poly :: "int \<Rightarrow> dtype list \<Rightarrow> int \<Rightarrow> int \<Rightarrow> poly" where
  "recon_poly k xlocal r j =
     fold (\<lambda>l q. inplace_poly_add q
                    (inplace_poly_scale (sum_m_loop k xlocal r l) (1 / a_loop k xlocal r l)))
          [j + 1 .. k] (poly_zero (nat (k - 1)))"

text \<open>The index tuples the three passes visit, in the order of their loops.\<close>

definition recon_slots :: "weno \<Rightarrow> (int \<times> int \<times> int) list" where
  "recon_slots w =
     concat (map (\<lambda>i. map (Pair i)
       (concat (map (\<lambda>r. map (Pair r) [0 .. weno_k w - 1]) [0 .. weno_k w - 1]))) (cells w))"

definition coefs_slots :: "weno \<Rightarrow> (int \<times> int \<times> int \<times> int) list" where
  "coefs_slots w =
     concat (map (\<lambda>i. map (Pair i)
       (concat (map (\<lambda>r. map (Pair r)
         (concat (map (\<lambda>j. map (Pair j) [0 .. weno_nxi w - 1]) [0 .. weno_k w - 1])))
         [0 .. weno_k w - 1]))) (cells w))"

definition smooth_slots :: "weno \<Rightarrow> (int \<times> int \<times> int \<times> int) list" where
  "smooth_slots w =
     concat (map (\<lambda>i. map (Pair i)
       (concat (map (\<lambda>r. map (Pair r)
         (concat (map (\<lambda>m. map (Pair m) [m .. weno_k w - 1]) [0 .. weno_k w - 1])))
         [0 .. weno_k w - 1]))) (cells w))"

text \<open>The index tuples \<open>(i, l, r, j)\<close> of the reconstruction tensor of
  extents \<open>(nc, nxi, k, k)\<close> and \<open>(i, r, m, n)\<close> of the smoothness tensor of
  extents \<open>(nc, k, k, k)\<close>. A layout is sound when distinct tuples have distinct
  offsets.\<close>

definition c_entries :: "weno \<Rightarrow> (int \<times> int \<times> int \<times> int) list" where
  "c_entries w =
     concat (map (\<lambda>i. map (Pair i)
       (concat (map (\<lambda>l. map (Pair l)
         (concat (map (\<lambda>r. map (Pair r) [0 .. weno_k w - 1]) [0 .. weno_k w - 1])))
         [0 .. weno_nxi w - 1]))) [0 .. weno_nc w - 1])"

definition beta_entries :: "weno \<Rightarrow> (int \<times> int \<times> int \<times> int) list" where
  "beta_entries w =
     concat (map (\<lambda>i. map (Pair i)
       (concat (map (\<lambda>r. map (Pair r)
         (concat (map (\<lambda>m. map (Pair m) [0 .. weno_k w - 1]) [0 .. weno_k w - 1])))
         [0 .. weno_k w - 1]))) [0 .. weno_nc w - 1])"

definition c_layout_distinct :: "weno \<Rightarrow> bool" where
  "c_layout_distinct w =
     distinct (map (\<lambda>(i, l, r, j). ilrj_of w i l r j) (c_entries w))"

definition beta_layout_distinct :: "weno \<Rightarrow> bool" where
  "beta_layout_distinct w =
     distinct (map (\<lambda>(i, r, m, n'). beta_of w i r m n') (beta_entries w))"


text \<open>The grid is strictly increasing over its \<open>nx\<close> boundaries.\<close>

definition grid_increasing :: "weno \<Rightarrow> bool" where
  "grid_increasing w = sorted_wrt (<) (map (weno_x w) [0 .. weno_nx w - 1])"

text \<open>The sum the claim words for the smoothness entry: over the derivative
  orders \<open>d\<close> from \<open>1\<close> to \<open>k - 1\<close>, the multiplicity times \<open>dx^(2d-1)\<close> times the
  integral over \<open>[0, dx]\<close> of the product of the \<open>d\<close>-th derivatives.\<close>

definition spec_smoothness :: "int \<Rightarrow> dtype \<Rightarrow> int \<Rightarrow> poly \<Rightarrow> poly \<Rightarrow> dtype" where
  "spec_smoothness k dx multi pm pn =
     (\<Sum>d\<leftarrow>[1 .. k - 1]. of_int multi * dx ^ nat (2 * d - 1) *
        poly_int (poly_mult (poly_diff pm (nat d)) (poly_diff pn (nat d))) 0 dx)"

text \<open>The stencil nodes of a cell and shift: \<^verbatim>\<open>node[m] = xlocal[il-r+m]\<close>.\<close>

definition node_of :: "weno \<Rightarrow> int \<Rightarrow> int \<Rightarrow> int \<Rightarrow> dtype" where
  "node_of w i r m = xlocal_of w i ! nat (xlocal_index (weno_k w) r m)"

text \<open>The polynomial as the claim words it, as a function of the point: the
  sum over \<open>l\<close> from \<open>j + 1\<close> to \<open>k\<close> of the product over \<open>m \<noteq> l\<close> of
  \<open>x - node[m]\<close>, scaled by the reciprocal of the product over \<open>m \<noteq> l\<close> of
  \<open>node[l] - node[m]\<close>.\<close>

definition spec_recon_poly :: "int \<Rightarrow> (int \<Rightarrow> dtype) \<Rightarrow> int \<Rightarrow> dtype \<Rightarrow> dtype" where
  "spec_recon_poly k node j t =
     (\<Sum>l\<leftarrow>[j + 1 .. k].
        (\<Prod>m\<leftarrow>filter (\<lambda>m. m \<noteq> l) [0 .. k]. (t - node m)) *
        (1 / (\<Prod>m\<leftarrow>filter (\<lambda>m. m \<noteq> l) [0 .. k]. (node l - node m))))"

text \<open>The polynomial with the numerator the loops build: for each \<open>l\<close> the
  sum over \<open>m \<noteq> l\<close> of the product over \<open>n \<noteq> l, m\<close> of \<open>x - node[n]\<close> (the
  derivative of the product above), scaled by the same reciprocal.\<close>

definition recon_formula :: "int \<Rightarrow> (int \<Rightarrow> dtype) \<Rightarrow> int \<Rightarrow> dtype \<Rightarrow> dtype" where
  "recon_formula k node j t =
     (\<Sum>l\<leftarrow>[j + 1 .. k].
        (\<Sum>m\<leftarrow>filter (\<lambda>m. m \<noteq> l) [0 .. k]. \<Prod>n'\<leftarrow>kept l m [0 .. k]. (t - node n')) *
        (1 / (\<Prod>m\<leftarrow>filter (\<lambda>m. m \<noteq> l) [0 .. k]. (node l - node m))))"

section \<open>The polynomials and the smoothness pass in double arithmetic\<close>

text \<open>
  Where a claim is about the numbers the machine computes, \<^verbatim>\<open>dtype\<close> is a
  binary64 number of IEEE 754 and not a real number. This section embeds
  \<^verbatim>\<open>weno_recon_polys\<close> and \<^verbatim>\<open>weno_smoothness_coefs\<close> a second time, loop
  by loop as above, over such numbers. (\<^verbatim>\<open>weno_recon_coefs\<close> runs between the
  two and assigns neither to the polynomials nor to \<^verbatim>\<open>beta\<close>.)
\<close>

subsection \<open>Binary64 numbers\<close>

text \<open>
  A number is \<open>DNum m e\<close> with the value \<open>m * 2^e\<close> (\<open>m \<noteq> 0\<close>), a signed zero,
  a signed infinity (the flag is the sign bit: \<open>True\<close> for minus) or a NaN.
\<close>

datatype double = DNum int int | DZero bool | DInf bool | DNaN

text \<open>
  \<open>bits a\<close> is the number of binary digits of \<open>a > 0\<close>. \<open>round_double m e\<close>
  rounds the exact value \<open>m * 2^e\<close> (\<open>m \<noteq> 0\<close>) to the nearest binary64 number,
  ties to even: the last place has the exponent \<open>t\<close>, 52 below the leading
  digit and never below \<open>-1074\<close> (subnormal numbers); a value that needs no
  digit below \<open>t\<close> is kept, another is cut at \<open>t\<close> and rounded by the digits
  cut off; a result of \<open>2^1024\<close> or more is infinite, a result with no digit
  left is a zero with the sign of the value.
\<close>

function bits :: "int \<Rightarrow> int" where
  "bits a = (if a \<le> 0 then 0 else 1 + bits (a div 2))"
  by pat_completeness auto
termination
  by (relation "measure nat") auto

declare bits.simps [simp del]

definition round_double :: "int \<Rightarrow> int \<Rightarrow> double" where
  "round_double m e =
     (let a = \<bar>m\<bar>;
          top = e + bits a - 1;
          t = max (top - 52) (- 1074)
      in if t \<le> e then (if 1023 < top then DInf (m < 0) else DNum m e)
         else
           (let s = nat (t - e);
                q = a div 2 ^ s;
                r = a mod 2 ^ s;
                h = 2 ^ (s - 1);
                q' = (if r < h then q else if h < r then q + 1
                      else if even q then q else q + 1)
            in if q' = 0 then DZero (m < 0)
               else if 1024 < t + bits q' then DInf (m < 0)
               else DNum (if m < 0 then - q' else q') t))"

text \<open>
  The operations of C on doubles: the exact result, rounded, with the rules
  of IEEE 754 for zeros, infinities and NaN. The quotient is rounded from
  at least 64 digits and one more digit that tells whether the division left a
  remainder.
\<close>

fun d_sign :: "double \<Rightarrow> bool" where
  "d_sign (DNum m e) = (m < 0)"
| "d_sign (DZero s) = s"
| "d_sign (DInf s) = s"
| "d_sign DNaN = False"

fun d_neg :: "double \<Rightarrow> double" where
  "d_neg (DNum m e) = DNum (- m) e"
| "d_neg (DZero s) = DZero (\<not> s)"
| "d_neg (DInf s) = DInf (\<not> s)"
| "d_neg DNaN = DNaN"

fun d_add :: "double \<Rightarrow> double \<Rightarrow> double" where
  "d_add DNaN _ = DNaN"
| "d_add _ DNaN = DNaN"
| "d_add (DInf s) (DInf s') = (if s = s' then DInf s else DNaN)"
| "d_add (DInf s) _ = DInf s"
| "d_add _ (DInf s) = DInf s"
| "d_add (DZero s) (DZero s') = DZero (s \<and> s')"
| "d_add (DZero _) (DNum m e) = DNum m e"
| "d_add (DNum m e) (DZero _) = DNum m e"
| "d_add (DNum m1 e1) (DNum m2 e2) =
     (let e = min e1 e2; m = m1 * 2 ^ nat (e1 - e) + m2 * 2 ^ nat (e2 - e)
      in if m = 0 then DZero False else round_double m e)"

fun d_mul :: "double \<Rightarrow> double \<Rightarrow> double" where
  "d_mul DNaN _ = DNaN"
| "d_mul _ DNaN = DNaN"
| "d_mul (DInf _) (DZero _) = DNaN"
| "d_mul (DZero _) (DInf _) = DNaN"
| "d_mul (DInf s) b = DInf (s \<noteq> d_sign b)"
| "d_mul a (DInf s) = DInf (d_sign a \<noteq> s)"
| "d_mul (DZero s) b = DZero (s \<noteq> d_sign b)"
| "d_mul a (DZero s) = DZero (d_sign a \<noteq> s)"
| "d_mul (DNum m1 e1) (DNum m2 e2) = round_double (m1 * m2) (e1 + e2)"

fun d_div :: "double \<Rightarrow> double \<Rightarrow> double" where
  "d_div DNaN _ = DNaN"
| "d_div _ DNaN = DNaN"
| "d_div (DInf _) (DInf _) = DNaN"
| "d_div (DZero _) (DZero _) = DNaN"
| "d_div (DInf s) b = DInf (s \<noteq> d_sign b)"
| "d_div a (DInf s) = DZero (d_sign a \<noteq> s)"
| "d_div (DZero s) b = DZero (s \<noteq> d_sign b)"
| "d_div a (DZero s) = DInf (d_sign a \<noteq> s)"
| "d_div (DNum m1 e1) (DNum m2 e2) =
     (let n = nat (64 + bits \<bar>m2\<bar>);
          q = (\<bar>m1\<bar> * 2 ^ n) div \<bar>m2\<bar>;
          r = (\<bar>m1\<bar> * 2 ^ n) mod \<bar>m2\<bar>;
          m = 2 * q + (if r = 0 then 0 else 1)
      in round_double (if (m1 < 0) = (m2 < 0) then m else - m) (e1 - e2 - int n - 1))"

text \<open>The conversion of a C \<^verbatim>\<open>int\<close> and the comparisons \<^verbatim>\<open><=\<close> and \<^verbatim>\<open><\<close>
  (false whenever a NaN is compared).\<close>

definition d_of_int :: "int \<Rightarrow> double" where
  "d_of_int n = (if n = 0 then DZero False else round_double n 0)"

fun d_le :: "double \<Rightarrow> double \<Rightarrow> bool" where
  "d_le DNaN _ = False"
| "d_le _ DNaN = False"
| "d_le (DInf s) (DInf s') = (s \<or> \<not> s')"
| "d_le (DInf s) _ = s"
| "d_le _ (DInf s) = (\<not> s)"
| "d_le (DZero _) (DZero _) = True"
| "d_le (DZero _) (DNum m e) = (0 < m)"
| "d_le (DNum m e) (DZero _) = (m < 0)"
| "d_le (DNum m1 e1) (DNum m2 e2) =
     (let e = min e1 e2 in m1 * 2 ^ nat (e1 - e) \<le> m2 * 2 ^ nat (e2 - e))"


text \<open>
  \<^verbatim>\<open>pow(x, n)\<close> of the C library for a whole exponent \<open>n\<close>, taken as the
  rounded exact power; \<^verbatim>\<open>pow(x, 1)\<close> is \<open>x\<close>.
\<close>

fun d_pow :: "double \<Rightarrow> nat \<Rightarrow> double" where
  "d_pow x 0 = DNum 1 0"
| "d_pow DNaN (Suc n) = DNaN"
| "d_pow (DInf s) (Suc n) = DInf (s \<and> even n)"
| "d_pow (DZero s) (Suc n) = DZero (s \<and> even n)"
| "d_pow (DNum m e) (Suc n) = round_double (m ^ Suc n) (e * int (Suc n))"

text \<open>The signs of C for doubles: \<^verbatim>\<open>0.0\<close>, \<^verbatim>\<open>1.0\<close>, \<^verbatim>\<open>+\<close>, unary and
  binary \<^verbatim>\<open>-\<close>, \<^verbatim>\<open>*\<close> and \<^verbatim>\<open>/\<close>.\<close>

instantiation double :: "{zero, one, plus, uminus, minus, times, inverse}"
begin

definition zero_double :: double where
  "zero_double = DZero False"

definition one_double :: double where
  "one_double = DNum 1 0"

definition plus_double :: "double \<Rightarrow> double \<Rightarrow> double" where
  "plus_double a b = d_add a b"

definition uminus_double :: "double \<Rightarrow> double" where
  "uminus_double a = d_neg a"

definition minus_double :: "double \<Rightarrow> double \<Rightarrow> double" where
  "minus_double a b = d_add a (d_neg b)"

definition times_double :: "double \<Rightarrow> double \<Rightarrow> double" where
  "times_double a b = d_mul a b"

definition divide_double :: "double \<Rightarrow> double \<Rightarrow> double" where
  "divide_double a b = d_div a b"

definition inverse_double :: "double \<Rightarrow> double" where
  "inverse_double a = d_div (DNum 1 0) a"

instance ..

end

subsection \<open>The polynomial value type over doubles\<close>

text \<open>
  Modelled from the spec: the struct \<^verbatim>\<open>poly\<close> and the functions
  \<^verbatim>\<open>poly_zero\<close>, \<^verbatim>\<open>poly_one\<close>, \<^verbatim>\<open>poly_diff\<close>, \<^verbatim>\<open>poly_int\<close> and
  \<^verbatim>\<open>poly_mult\<close> of the absent polynomial library, as in the first section,
  with doubles as coefficients. The spec fixes no order of the additions
  inside \<^verbatim>\<open>poly_int\<close> and \<^verbatim>\<open>poly_mult\<close>; they are taken in the order of the
  index.
\<close>

record dpoly =
  dpoly_n :: nat
  dpoly_p :: "double list"

definition d_poly_zero :: "nat \<Rightarrow> dpoly" where
  "d_poly_zero d = \<lparr>dpoly_n = d, dpoly_p = replicate (Suc d) 0\<rparr>"

definition d_poly_one :: "nat \<Rightarrow> dpoly" where
  "d_poly_one d = \<lparr>dpoly_n = d, dpoly_p = 1 # replicate d 0\<rparr>"

definition d_poly_diff1 :: "dpoly \<Rightarrow> dpoly" where
  "d_poly_diff1 q =
     (if dpoly_n q = 0 then d_poly_zero 0
      else \<lparr>dpoly_n = dpoly_n q - 1,
            dpoly_p = map (\<lambda>z. d_of_int (int (Suc z)) * dpoly_p q ! Suc z) [0..<dpoly_n q]\<rparr>)"

definition d_poly_diff :: "dpoly \<Rightarrow> nat \<Rightarrow> dpoly" where
  "d_poly_diff q d = (d_poly_diff1 ^^ d) q"

definition d_poly_int :: "dpoly \<Rightarrow> double \<Rightarrow> double \<Rightarrow> double" where
  "d_poly_int q a b =
     fold (\<lambda>z s. s + dpoly_p q ! z / d_of_int (int (Suc z)) * (d_pow b (Suc z) - d_pow a (Suc z)))
          [0..<Suc (dpoly_n q)] 0"

definition d_poly_mult :: "dpoly \<Rightarrow> dpoly \<Rightarrow> dpoly" where
  "d_poly_mult q1 q2 =
     \<lparr>dpoly_n = dpoly_n q1 + dpoly_n q2,
      dpoly_p = fold (\<lambda>i. fold (\<lambda>j c. c[i + j := c ! (i + j) + dpoly_p q1 ! i * dpoly_p q2 ! j])
                               [0..<Suc (dpoly_n q2)])
                     [0..<Suc (dpoly_n q1)] (replicate (Suc (dpoly_n q1 + dpoly_n q2)) 0)\<rparr>"

text \<open>The three macros of \<^verbatim>\<open>nfweno.c\<close>.\<close>

definition d_inplace_poly_mult_xpa :: "dpoly \<Rightarrow> double \<Rightarrow> dpoly" where
  "d_inplace_poly_mult_xpa p1 a =
     (let c = fold (\<lambda>z c. c[z := c ! (z - 1) + a * c ! z])
                   (rev [1..<Suc (dpoly_n p1)]) (dpoly_p p1)
      in p1\<lparr>dpoly_p := c[0 := a * c ! 0]\<rparr>)"

definition d_inplace_poly_add :: "dpoly \<Rightarrow> dpoly \<Rightarrow> dpoly" where
  "d_inplace_poly_add p1 p2 =
     p1\<lparr>dpoly_p := fold (\<lambda>z c. c[z := c ! z + dpoly_p p2 ! z])
                        [0..<Suc (dpoly_n p1)] (dpoly_p p1)\<rparr>"

definition d_inplace_poly_scale :: "dpoly \<Rightarrow> double \<Rightarrow> dpoly" where
  "d_inplace_poly_scale p1 a =
     p1\<lparr>dpoly_p := fold (\<lambda>z c. c[z := c ! z * a]) [0..<Suc (dpoly_n p1)] (dpoly_p p1)\<rparr>"

subsection \<open>The two passes over doubles\<close>

text \<open>The fields of \<^verbatim>\<open>weno\<close> that the two passes read or assign.\<close>

record dweno =
  dweno_k :: int
  dweno_nx :: int
  dweno_nc :: int
  dweno_x :: "int \<Rightarrow> double"
  dweno_c_irj_x :: "int \<Rightarrow> dpoly"
  dweno_beta :: "int \<Rightarrow> double"
  dweno_bsi :: int
  dweno_bsr :: int
  dweno_bsm :: int
  dweno_bsn :: int

definition d_cells :: "dweno \<Rightarrow> int list" where
  "d_cells w = [dweno_k w - 1 .. dweno_nc w - (dweno_k w - 1) - 1]"

definition d_beta_of :: "dweno \<Rightarrow> int \<Rightarrow> int \<Rightarrow> int \<Rightarrow> int \<Rightarrow> int" where
  "d_beta_of w i r m n' = dweno_bsi w * i + dweno_bsr w * r + dweno_bsm w * m + dweno_bsn w * n'"

text \<open>\<^verbatim>\<open>weno_recon_polys\<close>: the window, the three inner loops, the body of
  the loops over \<open>l\<close>, \<open>j\<close> and \<open>r\<close>, and the loop over the cells.\<close>

definition d_xlocal_of :: "dweno \<Rightarrow> int \<Rightarrow> double list" where
  "d_xlocal_of w i =
     map (\<lambda>j. dweno_x w (x_index (dweno_k w) i j) - dweno_x w i) [0 .. 2 * dweno_k w - 1]"

definition d_prd_n_step :: "int \<Rightarrow> double list \<Rightarrow> int \<Rightarrow> int \<Rightarrow> int \<Rightarrow> int \<Rightarrow> dpoly \<Rightarrow> dpoly" where
  "d_prd_n_step k xlocal r l m n' prd_n =
     (if n' = l \<or> n' = m then prd_n
      else d_inplace_poly_mult_xpa prd_n (- (xlocal ! nat (xlocal_index k r n'))))"

definition d_prd_n_loop :: "int \<Rightarrow> double list \<Rightarrow> int \<Rightarrow> int \<Rightarrow> int \<Rightarrow> dpoly" where
  "d_prd_n_loop k xlocal r l m =
     fold (d_prd_n_step k xlocal r l m) [0..k] (d_poly_one (nat (k - 1)))"

definition d_sum_m_loop :: "int \<Rightarrow> double list \<Rightarrow> int \<Rightarrow> int \<Rightarrow> dpoly" where
  "d_sum_m_loop k xlocal r l =
     fold (\<lambda>m sum_m. if m = l then sum_m
                      else d_inplace_poly_add sum_m (d_prd_n_loop k xlocal r l m))
          [0..k] (d_poly_zero (nat (k - 1)))"

definition d_a_loop :: "int \<Rightarrow> double list \<Rightarrow> int \<Rightarrow> int \<Rightarrow> double" where
  "d_a_loop k xlocal r l =
     fold (\<lambda>m a. if m = l then a
                  else a * (xlocal ! nat (xlocal_index k r l) - xlocal ! nat (xlocal_index k r m)))
          [0..k] 1"

definition d_recon_l_step :: "int \<Rightarrow> double list \<Rightarrow> int \<Rightarrow> int \<Rightarrow> int \<Rightarrow> (int \<Rightarrow> dpoly) \<Rightarrow> (int \<Rightarrow> dpoly)" where
  "d_recon_l_step k xlocal r irj l c =
     (let sum_m = d_sum_m_loop k xlocal r l;
          a = 1 / d_a_loop k xlocal r l;
          sum_m = d_inplace_poly_scale sum_m a
      in c(irj := d_inplace_poly_add (c irj) sum_m))"

definition d_recon_j_step :: "int \<Rightarrow> double list \<Rightarrow> int \<Rightarrow> int \<Rightarrow> int \<Rightarrow> (int \<Rightarrow> dpoly) \<Rightarrow> (int \<Rightarrow> dpoly)" where
  "d_recon_j_step k xlocal i r j c =
     (let irj = irj_of k i r j
      in fold (d_recon_l_step k xlocal r irj) [j + 1 .. k] (c(irj := d_poly_zero (nat (k - 1)))))"

definition d_recon_i_step :: "dweno \<Rightarrow> int \<Rightarrow> (int \<Rightarrow> dpoly) \<Rightarrow> (int \<Rightarrow> dpoly)" where
  "d_recon_i_step w i c =
     (let k = dweno_k w; xlocal = d_xlocal_of w i
      in fold (\<lambda>r. fold (d_recon_j_step k xlocal i r) [0 .. k - 1]) [0 .. k - 1] c)"

definition d_weno_recon_polys :: "dweno \<Rightarrow> dweno" where
  "d_weno_recon_polys w0 =
     w0\<lparr>dweno_c_irj_x := fold (d_recon_i_step w0) (d_cells w0) (dweno_c_irj_x w0)\<rparr>"

text \<open>\<^verbatim>\<open>weno_smoothness_coefs\<close>: the loop over \<open>d\<close> and the loops around it.\<close>

definition d_smooth_d_step :: "int \<Rightarrow> double \<Rightarrow> int \<Rightarrow> dpoly \<times> dpoly \<times> double \<Rightarrow> dpoly \<times> dpoly \<times> double" where
  "d_smooth_d_step multi dx d s =
     (case s of (pm, pn, l2) \<Rightarrow>
        let pm = d_poly_diff pm 1;
            pn = d_poly_diff pn 1
        in (pm, pn,
            l2 + d_of_int multi * d_pow dx (nat (2 * d - 1)) * d_poly_int (d_poly_mult pm pn) 0 dx))"

definition d_smooth_l2 :: "int \<Rightarrow> double \<Rightarrow> int \<Rightarrow> dpoly \<Rightarrow> dpoly \<Rightarrow> double" where
  "d_smooth_l2 k dx multi pm pn =
     snd (snd (fold (d_smooth_d_step multi dx) [1 .. k - 1] (pm, pn, 0)))"

definition d_smooth_n_step :: "dweno \<Rightarrow> int \<Rightarrow> double \<Rightarrow> int \<Rightarrow> int \<Rightarrow> int \<Rightarrow> (int \<Rightarrow> double) \<Rightarrow> (int \<Rightarrow> double)" where
  "d_smooth_n_step w i dx r m n' b =
     (let k = dweno_k w;
          irm = irj_of k i r m;
          irn = irj_of k i r n';
          multi = (if m = n' then 1 else 2);
          pm = dweno_c_irj_x w irm;
          pn = dweno_c_irj_x w irn;
          l2 = d_smooth_l2 k dx multi pm pn
      in b(d_beta_of w i r m n' := l2))"

definition d_smooth_i_step :: "dweno \<Rightarrow> int \<Rightarrow> (int \<Rightarrow> double) \<Rightarrow> (int \<Rightarrow> double)" where
  "d_smooth_i_step w i b =
     (let dx = dweno_x w (i + 1) - dweno_x w i
      in fold (\<lambda>r. fold (\<lambda>m. fold (d_smooth_n_step w i dx r m) [m .. dweno_k w - 1])
                       [0 .. dweno_k w - 1])
              [0 .. dweno_k w - 1] b)"

definition d_weno_smoothness_coefs :: "dweno \<Rightarrow> dweno" where
  "d_weno_smoothness_coefs w0 =
     w0\<lparr>dweno_beta := fold (d_smooth_i_step w0) (d_cells w0) (dweno_beta w0)\<rparr>"


text \<open>Two grids of five boundaries for \<open>k = 2\<close>, with a contiguous smoothness
  tensor: \<open>x[j] = j * 2^(-600)\<close>, and the grid \<open>[0,1,2,3,4]\<close> of the scenario.\<close>

definition d_weno_ex :: dweno where
  "d_weno_ex = \<lparr>dweno_k = 2, dweno_nx = 5, dweno_nc = 4,
          dweno_x = (\<lambda>j. if j = 0 then DZero False else DNum j (- 600)),
          dweno_c_irj_x = (\<lambda>_. \<lparr>dpoly_n = 0, dpoly_p = [DZero False]\<rparr>),
          dweno_beta = (\<lambda>_. DZero False),
          dweno_bsi = 8, dweno_bsr = 4, dweno_bsm = 2, dweno_bsn = 1\<rparr>"

definition d_weno_unit :: dweno where
  "d_weno_unit = d_weno_ex\<lparr>dweno_x := (\<lambda>j. d_of_int j)\<rparr>"

section \<open>Properties\<close>

subsection \<open>Fields and cells\<close>

lemma set_cells: "set (cells w) = {i. weno_k w - 1 \<le> i \<and> i < weno_nc w - (weno_k w - 1)}"
  by (auto simp: cells_def)

lemma length_xlocal_of: "length (xlocal_of w i) = nat (2 * weno_k w)"
  by (simp add: xlocal_of_def)

lemma cells_empty: "weno_nc w = weno_nx w - 1 \<Longrightarrow> weno_nx w < 2 * weno_k w \<Longrightarrow> cells w = []"
  by (simp add: cells_def)

lemma recon_polys_fields [simp]:
  "weno_k (weno_recon_polys w) = weno_k w" "weno_nx (weno_recon_polys w) = weno_nx w"
  "weno_nc (weno_recon_polys w) = weno_nc w" "weno_c_ilrj (weno_recon_polys w) = weno_c_ilrj w"
  "weno_beta (weno_recon_polys w) = weno_beta w"
  by (simp_all add: weno_recon_polys_def)

lemma recon_coefs_fields [simp]:
  "weno_k (weno_recon_coefs w) = weno_k w" "weno_nx (weno_recon_coefs w) = weno_nx w"
  "weno_nc (weno_recon_coefs w) = weno_nc w" "weno_c_irj_x (weno_recon_coefs w) = weno_c_irj_x w"
  "weno_beta (weno_recon_coefs w) = weno_beta w"
  by (simp_all add: weno_recon_coefs_def)

lemma smoothness_fields [simp]:
  "weno_k (weno_smoothness_coefs w) = weno_k w" "weno_nx (weno_smoothness_coefs w) = weno_nx w"
  "weno_nc (weno_smoothness_coefs w) = weno_nc w"
  "weno_c_irj_x (weno_smoothness_coefs w) = weno_c_irj_x w"
  "weno_c_ilrj (weno_smoothness_coefs w) = weno_c_ilrj w"
  by (simp_all add: weno_smoothness_coefs_def)

lemma cells_passes [simp]:
  "cells (weno_recon_polys w) = cells w" "cells (weno_recon_coefs w) = cells w"
  "cells (weno_smoothness_coefs w) = cells w"
  by (simp_all add: cells_def)

lemma passes_no_cells:
  "cells w = [] \<Longrightarrow> weno_recon_polys w = w \<and> weno_recon_coefs w = w \<and> weno_smoothness_coefs w = w"
  by (simp add: weno_recon_polys_def weno_recon_coefs_def weno_smoothness_coefs_def)

lemma weno_init_sizes:
  "weno_k (weno_init k xi_py x_py c_py beta_py) = k"
  "weno_nx (weno_init k xi_py x_py c_py beta_py) = arr_dims x_py ! 0"
  "weno_nc (weno_init k xi_py x_py c_py beta_py) = arr_dims x_py ! 0 - 1"
  "weno_c_ilrj (weno_init k xi_py x_py c_py beta_py) = arr_data c_py"
  "weno_beta (weno_init k xi_py x_py c_py beta_py) = arr_data beta_py"
  by (simp_all add: weno_init_def Let_def)

lemma py_accepts:
  "\<not> type_or_rank_wrong xi_py x_py c_py beta_py \<Longrightarrow>
   py_nonuniform_coeffs k xi_py x_py c_py beta_py =
     (Inr Py_None, weno_c_ilrj (weno_passes (weno_init k xi_py x_py c_py beta_py)),
      weno_beta (weno_passes (weno_init k xi_py x_py c_py beta_py)))"
  by (simp add: py_nonuniform_coeffs_def type_or_rank_wrong_def Let_def)

lemma ex_checks: "\<not> type_or_rank_wrong xi_ex x_ex c_ex beta_ex"
  by (simp add: type_or_rank_wrong_def xi_ex_def x_ex_def c_ex_def beta_ex_def
      PyArray_DOUBLE_def)

lemma ex_wide_checks: "\<not> type_or_rank_wrong xi_ex x_ex c_wide_ex beta_ex"
  by (simp add: type_or_rank_wrong_def xi_ex_def x_ex_def c_wide_ex_def c_ex_def beta_ex_def
      PyArray_DOUBLE_def)

subsection \<open>Input validation\<close>

text \<open>
  C8, as stated, fails: an input whose sizes are inconsistent (a reconstruction
  tensor of five cells for a grid of four) passes the four checks, the call
  returns \<open>None\<close> and the core has written to the tensor.
\<close>

theorem size_mismatch_accepted:
  "spec_must_reject 2 xi_ex x_ex c_wide_ex beta_ex \<and>
   fst (py_nonuniform_coeffs 2 xi_ex x_ex c_wide_ex beta_ex) = Inr Py_None \<and>
   fst (snd (py_nonuniform_coeffs 2 xi_ex x_ex c_wide_ex beta_ex)) 4 \<noteq> arr_data c_wide_ex 4"
proof -
  have 1: "spec_must_reject 2 xi_ex x_ex c_wide_ex beta_ex"
    by (simp add: spec_must_reject_def spec_sizes_consistent_def xi_ex_def x_ex_def
        c_wide_ex_def c_ex_def beta_ex_def)
  have 2: "weno_c_ilrj (weno_passes (weno_init 2 xi_ex x_ex c_wide_ex beta_ex)) 4 = 1"
    by code_simp
  have 3: "arr_data c_wide_ex 4 = 0"
    by (simp add: c_wide_ex_def c_ex_def)
  show ?thesis
    using 1 2 3 by (simp add: py_accepts [OF ex_wide_checks])
qed

text \<open>
  C8, amended: whenever \<open>x\<close> or \<open>xi\<close> is not a one-dimensional array of
  doubles, or \<open>c\<close> or \<open>beta\<close> is not a four-dimensional array of doubles,
  \<^verbatim>\<open>py_nonuniform_coeffs\<close> sets a \<open>ValueError\<close> and returns before the core
  runs, with both output buffers as they were; and these are the only inputs
  it rejects (sizes are not looked at).
\<close>

theorem py_nonuniform_coeffs_validation:
  "(type_or_rank_wrong xi_py x_py c_py beta_py \<longrightarrow>
      (\<exists>msg. py_nonuniform_coeffs k xi_py x_py c_py beta_py =
                 (Inl (ValueError msg), arr_data c_py, arr_data beta_py))) \<and>
   (isl (fst (py_nonuniform_coeffs k xi_py x_py c_py beta_py)) \<longrightarrow>
      type_or_rank_wrong xi_py x_py c_py beta_py)"
  by (auto simp: py_nonuniform_coeffs_def type_or_rank_wrong_def Let_def)

theorem py_nonuniform_coeffs_validation_witness:
  "type_or_rank_wrong xi_ex x_2d_ex c_ex beta_ex \<and>
   isl (fst (py_nonuniform_coeffs 2 xi_ex x_2d_ex c_ex beta_ex)) \<and>
   (\<exists>msg. py_nonuniform_coeffs 2 xi_ex x_2d_ex c_ex beta_ex =
                 (Inl (ValueError msg), arr_data c_ex, arr_data beta_ex))"
proof -
  have h: "type_or_rank_wrong xi_ex x_2d_ex c_ex beta_ex"
    by (simp add: type_or_rank_wrong_def x_2d_ex_def)
  from py_nonuniform_coeffs_validation [of xi_ex x_2d_ex c_ex beta_ex 2] h
  have e: "\<exists>msg. py_nonuniform_coeffs 2 xi_ex x_2d_ex c_ex beta_ex =
                 (Inl (ValueError msg), arr_data c_ex, arr_data beta_ex)"
    by blast
  then have "isl (fst (py_nonuniform_coeffs 2 xi_ex x_2d_ex c_ex beta_ex))"
    by auto
  with h e show ?thesis by blast
qed

subsection \<open>Grids too short for any stencil\<close>

text \<open>
  C9: when the four checks pass and the grid has fewer than \<open>2k\<close> boundaries,
  the call returns \<open>None\<close>, the cell loop of each of the three passes is empty
  (each pass returns its argument as it is), and both output buffers hold what
  they held before the call.
\<close>

theorem short_grid_no_writes:
  assumes "\<not> type_or_rank_wrong xi_py x_py c_py beta_py"
    and "arr_dims x_py ! 0 < 2 * k"
  shows "fst (py_nonuniform_coeffs k xi_py x_py c_py beta_py) = Inr Py_None \<and>
         snd (py_nonuniform_coeffs k xi_py x_py c_py beta_py) = (arr_data c_py, arr_data beta_py) \<and>
         cells (weno_init k xi_py x_py c_py beta_py) = [] \<and>
         cells (weno_recon_polys (weno_init k xi_py x_py c_py beta_py)) = [] \<and>
         cells (weno_recon_coefs (weno_recon_polys (weno_init k xi_py x_py c_py beta_py))) = [] \<and>
         weno_recon_polys (weno_init k xi_py x_py c_py beta_py) = weno_init k xi_py x_py c_py beta_py \<and>
         weno_recon_coefs (weno_init k xi_py x_py c_py beta_py) = weno_init k xi_py x_py c_py beta_py \<and>
         weno_smoothness_coefs (weno_init k xi_py x_py c_py beta_py) = weno_init k xi_py x_py c_py beta_py"
proof -
  let ?w = "weno_init k xi_py x_py c_py beta_py"
  have c: "cells ?w = []"
    using assms(2) by (intro cells_empty) (simp_all add: weno_init_sizes)
  note p = passes_no_cells [OF c]
  have "weno_passes ?w = ?w"
    by (simp add: weno_passes_def p)
  then show ?thesis
    using c p by (simp add: py_accepts [OF assms(1)] weno_init_sizes)
qed

theorem short_grid_no_writes_witness:
  "\<not> type_or_rank_wrong xi_ex x_ex c_ex beta_ex \<and> arr_dims x_ex ! 0 < 2 * 3 \<and>
   fst (py_nonuniform_coeffs 3 xi_ex x_ex c_ex beta_ex) = Inr Py_None \<and>
   snd (py_nonuniform_coeffs 3 xi_ex x_ex c_ex beta_ex) = (arr_data c_ex, arr_data beta_ex) \<and>
   cells (weno_init 3 xi_ex x_ex c_ex beta_ex) = []"
proof -
  have h1: "\<not> type_or_rank_wrong xi_ex x_ex c_ex beta_ex"
    by (rule ex_checks)
  have h2: "arr_dims x_ex ! 0 < 2 * 3"
    by (simp add: x_ex_def)
  from short_grid_no_writes [OF h1 h2] h1 h2 show ?thesis by blast
qed

subsection \<open>Index bounds of weno_recon_polys\<close>

lemma irj_of_bounds:
  assumes "i \<in> set (cells w)" "0 \<le> r" "r < weno_k w" "0 \<le> j" "j < weno_k w"
  shows "0 \<le> irj_of (weno_k w) i r j \<and> irj_of (weno_k w) i r j < weno_nc w * weno_k w * weno_k w"
proof -
  let ?k = "weno_k w"
  have k: "1 \<le> ?k" using assms(2,3) by simp
  have i: "0 \<le> i" "i + 1 \<le> weno_nc w"
    using assms(1) k by (auto simp: set_cells)
  have "r * ?k \<le> (?k - 1) * ?k"
    using assms(3) k by (intro mult_right_mono) simp_all
  then have rj: "r * ?k + j < ?k * ?k"
    using assms(5) by (simp add: algebra_simps)
  have "0 \<le> i * ?k * ?k" "0 \<le> r * ?k"
    using i k assms(2) by simp_all
  then have lo: "0 \<le> irj_of ?k i r j"
    using assms(4) by (simp add: irj_of_def)
  have "(i + 1) * (?k * ?k) \<le> weno_nc w * (?k * ?k)"
    using i(2) by (intro mult_right_mono) simp_all
  then have "irj_of ?k i r j < weno_nc w * ?k * ?k"
    using rj by (simp add: irj_of_def algebra_simps)
  with lo show ?thesis by simp
qed

text \<open>
  C10: with \<open>nx \<ge> 2k\<close> and \<open>nc = nx - 1\<close>, for every cell \<open>i\<close> the loop
  processes: every grid offset \<open>i - (k-1) + j\<close> read while the window is filled
  (\<open>0 \<le> j < 2k\<close>) lies in \<open>[0, nx)\<close>, as does \<open>i\<close> itself; every window
  offset \<open>(k-1) - r + n\<close> read by the inner loops (\<open>0 \<le> r < k\<close>,
  \<open>0 \<le> n \<le> k\<close>) lies in \<open>[0, 2k)\<close>, inside the window built for the cell;
  and every slot \<^verbatim>\<open>irj\<close> lies inside the \<open>nc * k * k\<close> polynomials allocated.
\<close>

theorem recon_polys_indices_in_bounds:
  assumes "2 * weno_k w \<le> weno_nx w" and "weno_nc w = weno_nx w - 1"
  shows "\<forall>i\<in>set (cells w).
           (\<forall>j\<in>set [0 .. 2 * weno_k w - 1].
              0 \<le> x_index (weno_k w) i j \<and> x_index (weno_k w) i j < weno_nx w \<and>
              0 \<le> i \<and> i < weno_nx w) \<and>
           (\<forall>r\<in>set [0 .. weno_k w - 1]. \<forall>n'\<in>set [0 .. weno_k w].
              0 \<le> xlocal_index (weno_k w) r n' \<and> xlocal_index (weno_k w) r n' < 2 * weno_k w \<and>
              nat (xlocal_index (weno_k w) r n') < length (xlocal_of w i)) \<and>
           (\<forall>r\<in>set [0 .. weno_k w - 1]. \<forall>j\<in>set [0 .. weno_k w - 1].
              0 \<le> irj_of (weno_k w) i r j \<and>
              irj_of (weno_k w) i r j < weno_nc w * weno_k w * weno_k w)"
proof (intro ballI conjI)
  fix i j assume "i \<in> set (cells w)" "j \<in> set [0 .. 2 * weno_k w - 1]"
  then show "0 \<le> x_index (weno_k w) i j" "x_index (weno_k w) i j < weno_nx w"
    "0 \<le> i" "i < weno_nx w"
    using assms by (auto simp: set_cells x_index_def)
next
  fix i r n' assume "i \<in> set (cells w)" "r \<in> set [0 .. weno_k w - 1]" "n' \<in> set [0 .. weno_k w]"
  then show "0 \<le> xlocal_index (weno_k w) r n'" "xlocal_index (weno_k w) r n' < 2 * weno_k w"
    "nat (xlocal_index (weno_k w) r n') < length (xlocal_of w i)"
    by (auto simp: xlocal_index_def length_xlocal_of)
next
  fix i r j assume "i \<in> set (cells w)" "r \<in> set [0 .. weno_k w - 1]" "j \<in> set [0 .. weno_k w - 1]"
  then show "0 \<le> irj_of (weno_k w) i r j"
    "irj_of (weno_k w) i r j < weno_nc w * weno_k w * weno_k w"
    using irj_of_bounds [of i w r j] by simp_all
qed

theorem recon_polys_indices_in_bounds_witness:
  "2 * weno_k weno_ex \<le> weno_nx weno_ex \<and> weno_nc weno_ex = weno_nx weno_ex - 1 \<and>
   1 \<in> set (cells weno_ex) \<and>
   3 \<in> set [0 .. 2 * weno_k weno_ex - 1] \<and>
   1 \<in> set [0 .. weno_k weno_ex - 1] \<and> 2 \<in> set [0 .. weno_k weno_ex] \<and>
   0 \<le> x_index (weno_k weno_ex) 1 3 \<and> x_index (weno_k weno_ex) 1 3 < weno_nx weno_ex \<and>
   0 \<le> xlocal_index (weno_k weno_ex) 1 2 \<and>
   xlocal_index (weno_k weno_ex) 1 2 < 2 * weno_k weno_ex \<and>
   nat (xlocal_index (weno_k weno_ex) 1 2) < length (xlocal_of weno_ex 1) \<and>
   irj_of (weno_k weno_ex) 1 1 1 < weno_nc weno_ex * weno_k weno_ex * weno_k weno_ex"
proof -
  have h1: "2 * weno_k weno_ex \<le> weno_nx weno_ex" by (simp add: weno_ex_def)
  have h2: "weno_nc weno_ex = weno_nx weno_ex - 1" by (simp add: weno_ex_def)
  have h3: "1 \<in> set (cells weno_ex)" by (simp add: set_cells weno_ex_def)
  have h4: "3 \<in> set [0 .. 2 * weno_k weno_ex - 1]" by (simp add: weno_ex_def)
  have h5: "1 \<in> set [0 .. weno_k weno_ex - 1]" by (simp add: weno_ex_def)
  have h6: "2 \<in> set [0 .. weno_k weno_ex]" by (simp add: weno_ex_def)
  from recon_polys_indices_in_bounds [OF h1 h2] h1 h2 h3 h4 h5 h6 show ?thesis by blast
qed

subsection \<open>The scenario of the spec\<close>

lemma ex_c_offsets:
  "ilrj_of (weno_init 2 xi_ex x_ex c_ex beta_ex) 1 0 0 0 = 4"
  "ilrj_of (weno_init 2 xi_ex x_ex c_ex beta_ex) 1 0 0 1 = 5"
  "ilrj_of (weno_init 2 xi_ex x_ex c_ex beta_ex) 1 0 1 0 = 6"
  "ilrj_of (weno_init 2 xi_ex x_ex c_ex beta_ex) 1 0 1 1 = 7"
  by (simp_all add: ilrj_of_def weno_init_def c_ex_def sizeof_double_def Let_def)

lemma ex_c_values:
  "weno_c_ilrj (weno_passes (weno_init 2 xi_ex x_ex c_ex beta_ex)) 4 = 1"
  "weno_c_ilrj (weno_passes (weno_init 2 xi_ex x_ex c_ex beta_ex)) 5 = 0"
  "weno_c_ilrj (weno_passes (weno_init 2 xi_ex x_ex c_ex beta_ex)) 6 = 0"
  "weno_c_ilrj (weno_passes (weno_init 2 xi_ex x_ex c_ex beta_ex)) 7 = 1"
  by code_simp+

text \<open>
  C3, as stated, fails: in the scenario the two coefficient pairs of cell 1 are
  neither \<open>{3/2, -1/2}\<close> and \<open>{1/2, 3/2}\<close> nor the same two sets with the
  shifts exchanged.
\<close>

theorem example_coefficients_not_as_stated:
  "\<not> (({example_c 0 0, example_c 0 1} = {3/2, -1/2} \<and>
        {example_c 1 0, example_c 1 1} = {1/2, 3/2}) \<or>
       ({example_c 1 0, example_c 1 1} = {3/2, -1/2} \<and>
        {example_c 0 0, example_c 0 1} = {1/2, 3/2}))"
  by (simp add: example_c_def py_accepts [OF ex_checks] ex_c_offsets ex_c_values
      doubleton_eq_iff)

text \<open>
  C3, amended: with \<open>k = 2\<close>, the grid \<open>[0,1,2,3,4]\<close> and the evaluation
  point \<open>0\<close> (the cell midpoint), the coefficients \<open>c[i=1, l=0, r, j]\<close> are
  \<open>1, 0\<close> for the shift \<open>r = 0\<close> and \<open>0, 1\<close> for the shift \<open>r = 1\<close>.
\<close>

theorem example_coefficients:
  "example_c 0 0 = 1 \<and> example_c 0 1 = 0 \<and> example_c 1 0 = 0 \<and> example_c 1 1 = 1"
  by (simp add: example_c_def py_accepts [OF ex_checks] ex_c_offsets ex_c_values)

subsection \<open>The in-place macros as polynomial operations\<close>

lemma fold_pointwise_length:
  "length (fold (\<lambda>z c. c[z := f z c]) zs c) = length c"
  by (induction zs arbitrary: c) simp_all

lemma fold_upto_nth:
  "i < length c \<Longrightarrow>
   fold (\<lambda>z c. c[z := g z (c ! z)]) [0..<m] c ! i = (if i < m then g i (c ! i) else c ! i)"
  by (induction m) (auto simp: nth_list_update fold_pointwise_length less_Suc_eq)

lemma fold_downto_nth:
  "m < length c \<Longrightarrow> i < length c \<Longrightarrow>
   fold (\<lambda>z c. c[z := c ! (z - 1) + a * c ! z]) (rev [1..<Suc m]) c ! i =
     (if 1 \<le> i \<and> i \<le> m then c ! (i - 1) + a * c ! i else c ! i)"
proof (induction m arbitrary: c)
  case 0
  then show ?case by auto
next
  case (Suc m)
  have "rev [1..<Suc (Suc m)] = Suc m # rev [1..<Suc m]" by simp
  then show ?case using Suc by (auto simp: nth_list_update)
qed

lemma mult_xpa_n [simp]: "poly_n (inplace_poly_mult_xpa q a) = poly_n q"
  by (simp add: inplace_poly_mult_xpa_def Let_def)

lemma add_n [simp]: "poly_n (inplace_poly_add q1 q2) = poly_n q1"
  by (simp add: inplace_poly_add_def)

lemma scale_n [simp]: "poly_n (inplace_poly_scale q a) = poly_n q"
  by (simp add: inplace_poly_scale_def)

lemma mult_xpa_wf [simp]: "poly_wf (inplace_poly_mult_xpa q a) = poly_wf q"
  by (simp add: inplace_poly_mult_xpa_def Let_def poly_wf_def fold_pointwise_length)

lemma add_wf [simp]: "poly_wf (inplace_poly_add q1 q2) = poly_wf q1"
  by (simp add: inplace_poly_add_def poly_wf_def fold_pointwise_length)

lemma scale_wf [simp]: "poly_wf (inplace_poly_scale q a) = poly_wf q"
  by (simp add: inplace_poly_scale_def poly_wf_def fold_pointwise_length)

lemma zero_wf [simp]: "poly_wf (poly_zero d)" "poly_n (poly_zero d) = d"
  by (simp_all add: poly_zero_def poly_wf_def)

lemma one_wf [simp]: "poly_wf (poly_one d)" "poly_n (poly_one d) = d"
  by (simp_all add: poly_one_def poly_wf_def)

lemma mult_xpa_nth:
  assumes "poly_wf q" "i \<le> poly_n q"
  shows "poly_p (inplace_poly_mult_xpa q a) ! i =
           (if i = 0 then 0 else poly_p q ! (i - 1)) + a * poly_p q ! i"
proof -
  define c where
    "c = fold (\<lambda>z c. c[z := c ! (z - 1) + a * c ! z]) (rev [1..<Suc (poly_n q)]) (poly_p q)"
  have l: "poly_n q < length (poly_p q)" "i < length (poly_p q)" "0 < length (poly_p q)"
    using assms by (simp_all add: poly_wf_def)
  have c: "c ! j = (if 1 \<le> j \<and> j \<le> poly_n q then poly_p q ! (j - 1) + a * poly_p q ! j
                     else poly_p q ! j)" if "j < length (poly_p q)" for j
    unfolding c_def using l(1) that by (rule fold_downto_nth)
  have len: "length c = length (poly_p q)"
    unfolding c_def by (rule fold_pointwise_length)
  have "poly_p (inplace_poly_mult_xpa q a) = c[0 := a * c ! 0]"
    by (simp add: inplace_poly_mult_xpa_def Let_def c_def del: upt_Suc)
  then show ?thesis
    using l assms(2) by (simp add: nth_list_update len c)
qed

lemma add_nth:
  assumes "poly_wf q1" "i \<le> poly_n q1"
  shows "poly_p (inplace_poly_add q1 q2) ! i = poly_p q1 ! i + poly_p q2 ! i"
proof -
  have "i < length (poly_p q1)"
    using assms by (simp add: poly_wf_def)
  from fold_upto_nth [OF this, of "\<lambda>z v. v + poly_p q2 ! z" "Suc (poly_n q1)"] assms(2)
  show ?thesis
    by (simp add: inplace_poly_add_def del: upt_Suc)
qed

lemma scale_nth:
  assumes "poly_wf q" "i \<le> poly_n q"
  shows "poly_p (inplace_poly_scale q a) ! i = poly_p q ! i * a"
proof -
  have "i < length (poly_p q)"
    using assms by (simp add: poly_wf_def)
  from fold_upto_nth [OF this, of "\<lambda>z v. v * a" "Suc (poly_n q)"] assms(2)
  show ?thesis
    by (simp add: inplace_poly_scale_def del: upt_Suc)
qed

lemma poly_eval_sum:
  "poly_wf q \<Longrightarrow> poly_eval q t = (\<Sum>z\<le>poly_n q. poly_p q ! z * t ^ z)"
proof -
  assume "poly_wf q"
  then have l: "length (poly_p q) = Suc (poly_n q)" by (simp add: poly_wf_def)
  have "poly_eval q t = horner_sum (\<lambda>c. c) t (poly_p q)"
    by (simp add: poly_eval_def horner_sum_foldr)
  also have "\<dots> = (\<Sum>z = 0..<Suc (poly_n q). poly_p q ! z * t ^ z)"
    by (simp add: horner_sum_eq_sum l)
  finally show ?thesis by (simp add: atLeast0LessThan lessThan_Suc_atMost)
qed

lemma zero_nth: "z \<le> d \<Longrightarrow> poly_p (poly_zero d) ! z = 0"
  by (simp add: poly_zero_def del: replicate_Suc)

lemma one_nth: "z \<le> d \<Longrightarrow> poly_p (poly_one d) ! z = (if z = 0 then 1 else 0)"
  by (simp add: poly_one_def nth_Cons')

lemma eval_zero [simp]: "poly_eval (poly_zero d) t = 0"
  by (simp add: poly_eval_sum zero_nth)

lemma eval_one [simp]: "poly_eval (poly_one d) t = 1"
proof -
  have "poly_eval (poly_one d) t = (\<Sum>z\<le>d. (if z = 0 then 1 else 0) * t ^ z)"
    by (simp add: poly_eval_sum one_nth)
  also have "\<dots> = (\<Sum>z\<le>d. if z = 0 then 1 else 0)"
    by (intro sum.cong) auto
  also have "\<dots> = 1" by simp
  finally show ?thesis .
qed

lemma eval_add:
  assumes "poly_wf q1" "poly_wf q2" "poly_n q2 = poly_n q1"
  shows "poly_eval (inplace_poly_add q1 q2) t = poly_eval q1 t + poly_eval q2 t"
  using assms by (simp add: poly_eval_sum add_nth distrib_right sum.distrib)

lemma eval_scale:
  assumes "poly_wf q"
  shows "poly_eval (inplace_poly_scale q a) t = poly_eval q t * a"
  using assms by (simp add: poly_eval_sum scale_nth sum_distrib_right mult.assoc mult.commute [of a])

lemma eval_mult_xpa:
  assumes "poly_wf q"
  shows "poly_eval (inplace_poly_mult_xpa q a) t =
           (t + a) * poly_eval q t - poly_p q ! poly_n q * t ^ Suc (poly_n q)"
proof -
  let ?c = "\<lambda>z. poly_p q ! z"
  let ?n = "poly_n q"
  have "poly_eval (inplace_poly_mult_xpa q a) t =
          (\<Sum>z\<le>?n. ((if z = 0 then 0 else ?c (z - 1)) + a * ?c z) * t ^ z)"
    using assms by (simp add: poly_eval_sum mult_xpa_nth)
  also have "\<dots> = (\<Sum>z\<le>?n. (if z = 0 then 0 else ?c (z - 1)) * t ^ z) + a * (\<Sum>z\<le>?n. ?c z * t ^ z)"
    by (simp add: distrib_right sum.distrib sum_distrib_left mult.assoc)
  also have "(\<Sum>z\<le>?n. (if z = 0 then 0 else ?c (z - 1)) * t ^ z) = (\<Sum>z<?n. ?c z * t ^ Suc z)"
    by (simp add: sum.atMost_shift)
  also have "\<dots> = t * (\<Sum>z<?n. ?c z * t ^ z)"
    by (simp add: sum_distrib_left mult.assoc mult.left_commute)
  also have "(\<Sum>z<?n. ?c z * t ^ z) = (\<Sum>z\<le>?n. ?c z * t ^ z) - ?c ?n * t ^ ?n"
    by (simp add: lessThan_Suc_atMost [symmetric])
  finally show ?thesis
    using assms by (simp add: poly_eval_sum algebra_simps)
qed


lemma poly_degree_less_iff:
  "poly_wf q \<Longrightarrow> poly_degree_less q d = (\<forall>z. d \<le> z \<and> z \<le> poly_n q \<longrightarrow> poly_p q ! z = 0)"
proof -
  assume "poly_wf q"
  then have l: "length (poly_p q) = Suc (poly_n q)" by (simp add: poly_wf_def)
  show ?thesis
  proof
    assume a: "poly_degree_less q d"
    show "\<forall>z. d \<le> z \<and> z \<le> poly_n q \<longrightarrow> poly_p q ! z = 0"
    proof (intro allI impI)
      fix z assume z: "d \<le> z \<and> z \<le> poly_n q"
      then have "z - d < length (drop d (poly_p q))" using l by auto
      with a have "drop d (poly_p q) ! (z - d) = 0"
        by (simp add: poly_degree_less_def list_all_length)
      with z l show "poly_p q ! z = 0" by simp
    qed
  next
    assume a: "\<forall>z. d \<le> z \<and> z \<le> poly_n q \<longrightarrow> poly_p q ! z = 0"
    show "poly_degree_less q d"
      unfolding poly_degree_less_def list_all_length
    proof (intro allI impI)
      fix n' assume "n' < length (drop d (poly_p q))"
      then have "d \<le> d + n' \<and> d + n' \<le> poly_n q" using l by simp
      with a have "poly_p q ! (d + n') = 0" by blast
      then show "drop d (poly_p q) ! n' = 0" using l \<open>n' < length (drop d (poly_p q))\<close> by simp
    qed
  qed
qed

lemma eval_mult_xpa_exact:
  assumes "poly_wf q" "poly_degree_less q (poly_n q)"
  shows "poly_eval (inplace_poly_mult_xpa q a) t = (t + a) * poly_eval q t"
proof -
  have "poly_p q ! poly_n q = 0"
    using assms by (simp add: poly_degree_less_iff)
  then show ?thesis
    using assms(1) by (simp add: eval_mult_xpa)
qed

lemma mult_xpa_degree:
  assumes "poly_wf q" "poly_degree_less q d"
  shows "poly_degree_less (inplace_poly_mult_xpa q a) (Suc d)"
proof -
  have "poly_p (inplace_poly_mult_xpa q a) ! z = 0" if "Suc d \<le> z" "z \<le> poly_n q" for z
  proof -
    have d: "\<forall>z. d \<le> z \<and> z \<le> poly_n q \<longrightarrow> poly_p q ! z = 0"
      using assms by (simp add: poly_degree_less_iff)
    have "d \<le> z - 1 \<and> z - 1 \<le> poly_n q" "d \<le> z \<and> z \<le> poly_n q"
      using that by auto
    with d have "poly_p q ! (z - 1) = 0" "poly_p q ! z = 0"
      by blast+
    then show ?thesis
      using assms(1) that by (simp add: mult_xpa_nth)
  qed
  then show ?thesis
    using assms(1) by (simp add: poly_degree_less_iff)
qed

lemma prd_n_step_skip: "n' = l \<or> n' = m \<Longrightarrow> prd_n_step k xl r l m n' q = q"
  by (simp add: prd_n_step_def)

lemma prd_n_step_mult:
  "n' \<noteq> l \<Longrightarrow> n' \<noteq> m \<Longrightarrow>
   prd_n_step k xl r l m n' q = inplace_poly_mult_xpa q (- (xl ! nat (xlocal_index k r n')))"
  by (simp add: prd_n_step_def)

lemma one_degree: "poly_degree_less (poly_one d) (Suc 0)"
  by (simp add: poly_degree_less_iff one_nth)

lemma prd_n_fold:
  assumes "length (kept l m ns) \<le> d"
  shows "poly_wf (fold (prd_n_step k xl r l m) ns (poly_one d)) \<and>
         poly_n (fold (prd_n_step k xl r l m) ns (poly_one d)) = d \<and>
         poly_degree_less (fold (prd_n_step k xl r l m) ns (poly_one d)) (Suc (length (kept l m ns))) \<and>
         poly_eval (fold (prd_n_step k xl r l m) ns (poly_one d)) t =
           (\<Prod>n'\<leftarrow>kept l m ns. (t - xl ! nat (xlocal_index k r n')))"
  using assms
proof (induction ns rule: rev_induct)
  case Nil
  then show ?case by (simp add: one_degree)
next
  case (snoc n' ns)
  let ?q = "fold (prd_n_step k xl r l m) ns (poly_one d)"
  show ?case
  proof (cases "n' = l \<or> n' = m")
    case True
    then show ?thesis using snoc by (auto simp: prd_n_step_skip)
  next
    case False
    then have len: "Suc (length (kept l m ns)) \<le> d" using snoc.prems by simp
    then have ih: "poly_wf ?q" "poly_n ?q = d"
      "poly_degree_less ?q (Suc (length (kept l m ns)))"
      "poly_eval ?q t = (\<Prod>n'\<leftarrow>kept l m ns. (t - xl ! nat (xlocal_index k r n')))"
      using snoc.IH by simp_all
    have "poly_degree_less ?q (poly_n ?q)"
      using ih(1,2,3) len by (auto simp: poly_degree_less_iff)
    then have "poly_eval (inplace_poly_mult_xpa ?q (- (xl ! nat (xlocal_index k r n')))) t
                 = (t - xl ! nat (xlocal_index k r n')) * poly_eval ?q t"
      using ih(1) by (simp add: eval_mult_xpa_exact)
    then show ?thesis
      using False ih by (simp add: prd_n_step_mult mult_xpa_degree)
  qed
qed

lemma length_kept:
  assumes "0 \<le> l" "l \<le> k" "0 \<le> m" "m \<le> k" "l \<noteq> m"
  shows "length (kept l m [0..k]) = nat (k - 1)"
proof -
  have "length (kept l m [0..k]) = card (set (kept l m [0..k]))"
    by (rule distinct_card [symmetric]) simp
  also have "set (kept l m [0..k]) = {0..k} - {l, m}"
    by auto
  also have "card \<dots> = card {0..k} - card {l, m}"
    using assms by (intro card_Diff_subset) auto
  also have "\<dots> = nat (k - 1)"
    using assms by simp
  finally show ?thesis .
qed

lemma prd_n_loop_eval:
  assumes "0 \<le> l" "l \<le> k" "0 \<le> m" "m \<le> k" "l \<noteq> m"
  shows "poly_wf (prd_n_loop k xl r l m)" "poly_n (prd_n_loop k xl r l m) = nat (k - 1)"
    "poly_eval (prd_n_loop k xl r l m) t = (\<Prod>n'\<leftarrow>kept l m [0..k]. (t - xl ! nat (xlocal_index k r n')))"
  using prd_n_fold [of l m "[0..k]" "nat (k - 1)" k xl r t] length_kept [OF assms]
  by (simp_all add: prd_n_loop_def prd_n_run_def)

lemma sum_m_fold:
  assumes "0 \<le> l" "l \<le> k" "set ms \<subseteq> {0..k}"
  shows "poly_wf (fold (\<lambda>m sum_m. if m = l then sum_m
                      else inplace_poly_add sum_m (prd_n_loop k xl r l m)) ms (poly_zero (nat (k - 1)))) \<and>
         poly_n (fold (\<lambda>m sum_m. if m = l then sum_m
                      else inplace_poly_add sum_m (prd_n_loop k xl r l m)) ms (poly_zero (nat (k - 1)))) = nat (k - 1) \<and>
         poly_eval (fold (\<lambda>m sum_m. if m = l then sum_m
                      else inplace_poly_add sum_m (prd_n_loop k xl r l m)) ms (poly_zero (nat (k - 1)))) t =
           (\<Sum>m\<leftarrow>filter (\<lambda>m. m \<noteq> l) ms. \<Prod>n'\<leftarrow>kept l m [0..k]. (t - xl ! nat (xlocal_index k r n')))"
  using assms(3)
proof (induction ms rule: rev_induct)
  case Nil
  then show ?case by simp
next
  case (snoc m ms)
  then have m: "0 \<le> m" "m \<le> k" by auto
  show ?case
  proof (cases "m = l")
    case True
    then show ?thesis using snoc by simp
  next
    case False
    then have "l \<noteq> m" by simp
    note p = prd_n_loop_eval [OF assms(1,2) m this]
    show ?thesis using snoc False p by (simp add: eval_add)
  qed
qed

lemma sum_m_loop_eval:
  assumes "0 \<le> l" "l \<le> k"
  shows "poly_wf (sum_m_loop k xl r l)" "poly_n (sum_m_loop k xl r l) = nat (k - 1)"
    "poly_eval (sum_m_loop k xl r l) t =
       (\<Sum>m\<leftarrow>filter (\<lambda>m. m \<noteq> l) [0..k]. \<Prod>n'\<leftarrow>kept l m [0..k]. (t - xl ! nat (xlocal_index k r n')))"
  using sum_m_fold [OF assms, of "[0..k]" xl r t] by (simp_all add: sum_m_loop_def)

lemma a_fold:
  "fold (\<lambda>m a. if m = l then a else a * g m) ms (a0 :: real) = a0 * (\<Prod>m\<leftarrow>filter (\<lambda>m. m \<noteq> l) ms. g m)"
  by (induction ms arbitrary: a0) (simp_all add: mult.assoc)

lemma a_loop_eq:
  "a_loop k xl r l =
     (\<Prod>m\<leftarrow>filter (\<lambda>m. m \<noteq> l) [0..k].
        (xl ! nat (xlocal_index k r l) - xl ! nat (xlocal_index k r m)))"
  by (simp add: a_loop_def a_fold)


lemma poly_degree_less_mono:
  "poly_wf q \<Longrightarrow> poly_degree_less q d \<Longrightarrow> d \<le> e \<Longrightarrow> poly_degree_less q e"
  by (simp add: poly_degree_less_iff)

subsection \<open>The passes as sequences of single assignments\<close>

lemma fold_nested:
  "fold (\<lambda>x. fold (h x) (ys x)) xs =
   fold (\<lambda>p. h (fst p) (snd p)) (concat (map (\<lambda>x. map (Pair x) (ys x)) xs))"
  by (induction xs) (simp_all add: fold_map comp_def)

lemma fold_updates_other:
  "a \<notin> addr ` set xs \<Longrightarrow> fold (\<lambda>x c. c(addr x := val x)) xs c a = c a"
  by (induction xs arbitrary: c) auto

lemma fold_updates_at:
  "inj_on addr (set xs) \<Longrightarrow> x \<in> set xs \<Longrightarrow>
   fold (\<lambda>x c. c(addr x := val x)) xs c (addr x) = val x"
proof (induction xs arbitrary: c)
  case Nil
  then show ?case by simp
next
  case (Cons y ys)
  have inj: "inj_on addr (set ys)"
    using Cons.prems(1) by (simp add: inj_on_def)
  show ?case
  proof (cases "x \<in> set ys")
    case True
    then show ?thesis using Cons.IH [OF inj] by simp
  next
    case False
    then have xy: "x = y" using Cons.prems(2) by simp
    have "addr y \<notin> addr ` set ys"
      using Cons.prems(1) False xy by (auto simp: inj_on_def)
    then have "fold (\<lambda>x c. c(addr x := val x)) ys (c(addr y := val y)) (addr y) =
                 (c(addr y := val y)) (addr y)"
      by (rule fold_updates_other)
    also have "\<dots> = val y" by simp
    finally show ?thesis
      unfolding xy fold_Cons o_apply .
  qed
qed

lemma recon_l_fold:
  "fold (recon_l_step k xl r irj) ls c =
   c(irj := fold (\<lambda>l q. inplace_poly_add q
                     (inplace_poly_scale (sum_m_loop k xl r l) (1 / a_loop k xl r l))) ls (c irj))"
  by (induction ls arbitrary: c) (simp_all add: recon_l_step_def Let_def)

lemma recon_j_step_eq:
  "recon_j_step k xl i r j c = c(irj_of k i r j := recon_poly k xl r j)"
  by (simp add: recon_j_step_def Let_def recon_l_fold recon_poly_def)

lemma recon_polys_store:
  "weno_c_irj_x (weno_recon_polys w) =
   fold (\<lambda>s c. c(irj_of (weno_k w) (fst s) (fst (snd s)) (snd (snd s)) :=
                 recon_poly (weno_k w) (xlocal_of w (fst s)) (fst (snd s)) (snd (snd s))))
        (recon_slots w) (weno_c_irj_x w)"
proof -
  have j: "recon_j_step k xl i r = (\<lambda>j c. c(irj_of k i r j := recon_poly k xl r j))" for k xl i r
    by (intro ext) (simp add: recon_j_step_eq)
  have "recon_i_step w = (\<lambda>i. fold (\<lambda>p c. c(irj_of (weno_k w) i (fst p) (snd p) :=
            recon_poly (weno_k w) (xlocal_of w i) (fst p) (snd p)))
          (concat (map (\<lambda>r. map (Pair r) [0 .. weno_k w - 1]) [0 .. weno_k w - 1])))"
    by (intro ext) (simp add: recon_i_step_def Let_def j fold_nested)
  then show ?thesis
    by (simp add: weno_recon_polys_def recon_slots_def fold_nested)
qed

lemma coefs_store:
  "weno_c_ilrj (weno_recon_coefs w) =
   fold (\<lambda>s c. c(ilrj_of w (fst s) (snd (snd (snd s))) (fst (snd s)) (fst (snd (snd s))) :=
                 poly_eval (weno_c_irj_x w (irj_of (weno_k w) (fst s) (fst (snd s)) (fst (snd (snd s)))))
                   (0.5 * (1.0 + weno_xi w (snd (snd (snd s)))) *
                      (weno_x w (fst s + 1) - weno_x w (fst s)))))
        (coefs_slots w) (weno_c_ilrj w)"
proof -
  have n: "coefs_n_step w i r j = (\<lambda>n' c. c(ilrj_of w i n' r j :=
             poly_eval (weno_c_irj_x w (irj_of (weno_k w) i r j))
               (0.5 * (1.0 + weno_xi w n') * (weno_x w (i + 1) - weno_x w i))))" for i r j
    by (intro ext) (simp add: coefs_n_step_def Let_def)
  have "coefs_i_step w = (\<lambda>i. fold (\<lambda>s c. c(ilrj_of w i (snd (snd s)) (fst s) (fst (snd s)) :=
             poly_eval (weno_c_irj_x w (irj_of (weno_k w) i (fst s) (fst (snd s))))
               (0.5 * (1.0 + weno_xi w (snd (snd s))) * (weno_x w (i + 1) - weno_x w i))))
          (concat (map (\<lambda>r. map (Pair r)
             (concat (map (\<lambda>j. map (Pair j) [0 .. weno_nxi w - 1]) [0 .. weno_k w - 1])))
             [0 .. weno_k w - 1])))"
    by (intro ext) (simp add: coefs_i_step_def n fold_nested)
  then show ?thesis
    by (simp add: weno_recon_coefs_def coefs_slots_def fold_nested)
qed

lemma smooth_store:
  "weno_beta (weno_smoothness_coefs w) =
   fold (\<lambda>s b. b(beta_of w (fst s) (fst (snd s)) (fst (snd (snd s))) (snd (snd (snd s))) :=
                 smooth_l2 (weno_k w) (weno_x w (fst s + 1) - weno_x w (fst s))
                   (if fst (snd (snd s)) = snd (snd (snd s)) then 1 else 2)
                   (weno_c_irj_x w (irj_of (weno_k w) (fst s) (fst (snd s)) (fst (snd (snd s)))))
                   (weno_c_irj_x w (irj_of (weno_k w) (fst s) (fst (snd s)) (snd (snd (snd s)))))))
        (smooth_slots w) (weno_beta w)"
proof -
  have n: "smooth_n_step w i dx r m = (\<lambda>n' b. b(beta_of w i r m n' :=
             smooth_l2 (weno_k w) dx (if m = n' then 1 else 2)
               (weno_c_irj_x w (irj_of (weno_k w) i r m))
               (weno_c_irj_x w (irj_of (weno_k w) i r n'))))" for i dx r m
    by (intro ext) (simp add: smooth_n_step_def Let_def)
  have "smooth_i_step w = (\<lambda>i. fold (\<lambda>s b. b(beta_of w i (fst s) (fst (snd s)) (snd (snd s)) :=
             smooth_l2 (weno_k w) (weno_x w (i + 1) - weno_x w i)
               (if fst (snd s) = snd (snd s) then 1 else 2)
               (weno_c_irj_x w (irj_of (weno_k w) i (fst s) (fst (snd s))))
               (weno_c_irj_x w (irj_of (weno_k w) i (fst s) (snd (snd s))))))
          (concat (map (\<lambda>r. map (Pair r)
             (concat (map (\<lambda>m. map (Pair m) [m .. weno_k w - 1]) [0 .. weno_k w - 1])))
             [0 .. weno_k w - 1])))"
    by (intro ext) (simp add: smooth_i_step_def Let_def n fold_nested)
  then show ?thesis
    by (simp add: weno_smoothness_coefs_def smooth_slots_def fold_nested)
qed

lemma in_nested:
  "(x, y) \<in> set (concat (map (\<lambda>x. map (Pair x) (ys x)) xs)) \<longleftrightarrow>
     x \<in> set xs \<and> y \<in> set (ys x)"
  by auto

lemma in_recon_slots:
  "(i, r, j) \<in> set (recon_slots w) \<longleftrightarrow>
     i \<in> set (cells w) \<and> 0 \<le> r \<and> r < weno_k w \<and> 0 \<le> j \<and> j < weno_k w"
  unfolding recon_slots_def in_nested by auto

lemma in_coefs_slots:
  "(i, r, j, n') \<in> set (coefs_slots w) \<longleftrightarrow>
     i \<in> set (cells w) \<and> 0 \<le> r \<and> r < weno_k w \<and> 0 \<le> j \<and> j < weno_k w \<and>
     0 \<le> n' \<and> n' < weno_nxi w"
  unfolding coefs_slots_def in_nested by auto

lemma in_smooth_slots:
  "(i, r, m, n') \<in> set (smooth_slots w) \<longleftrightarrow>
     i \<in> set (cells w) \<and> 0 \<le> r \<and> r < weno_k w \<and> 0 \<le> m \<and> m \<le> n' \<and> n' < weno_k w"
  unfolding smooth_slots_def in_nested by auto


lemma in_c_entries:
  "(i, l, r, j) \<in> set (c_entries w) \<longleftrightarrow>
     0 \<le> i \<and> i < weno_nc w \<and> 0 \<le> l \<and> l < weno_nxi w \<and>
     0 \<le> r \<and> r < weno_k w \<and> 0 \<le> j \<and> j < weno_k w"
  unfolding c_entries_def in_nested by auto

lemma in_beta_entries:
  "(i, r, m, n') \<in> set (beta_entries w) \<longleftrightarrow>
     0 \<le> i \<and> i < weno_nc w \<and> 0 \<le> r \<and> r < weno_k w \<and>
     0 \<le> m \<and> m < weno_k w \<and> 0 \<le> n' \<and> n' < weno_k w"
  unfolding beta_entries_def in_nested by auto

lemma c_layout_inj:
  assumes "c_layout_distinct w"
    and "(i, l, r, j) \<in> set (c_entries w)" and "(i', l', r', j') \<in> set (c_entries w)"
    and "ilrj_of w i l r j = ilrj_of w i' l' r' j'"
  shows "i = i' \<and> l = l' \<and> r = r' \<and> j = j'"
proof -
  have "inj_on (\<lambda>(i, l, r, j). ilrj_of w i l r j) (set (c_entries w))"
    using assms(1) by (simp add: c_layout_distinct_def distinct_map)
  from inj_onD [OF this _ assms(2,3)] assms(4) show ?thesis by simp
qed

lemma beta_layout_inj:
  assumes "beta_layout_distinct w"
    and "(i, r, m, n') \<in> set (beta_entries w)" and "(i', r', m', n'') \<in> set (beta_entries w)"
    and "beta_of w i r m n' = beta_of w i' r' m' n''"
  shows "i = i' \<and> r = r' \<and> m = m' \<and> n' = n''"
proof -
  have "inj_on (\<lambda>(i, r, m, n'). beta_of w i r m n') (set (beta_entries w))"
    using assms(1) by (simp add: beta_layout_distinct_def distinct_map)
  from inj_onD [OF this _ assms(2,3)] assms(4) show ?thesis by simp
qed

lemma cell_in_extent:
  "i \<in> set (cells w) \<Longrightarrow> 1 \<le> weno_k w \<Longrightarrow> 0 \<le> i \<and> i < weno_nc w"
  by (auto simp: set_cells)

lemma offsets_after_polys [simp]:
  "ilrj_of (weno_recon_polys w) = ilrj_of w" "beta_of (weno_recon_polys w) = beta_of w"
  "coefs_slots (weno_recon_polys w) = coefs_slots w"
  "smooth_slots (weno_recon_polys w) = smooth_slots w"
  by (auto simp: ilrj_of_def beta_of_def coefs_slots_def smooth_slots_def weno_recon_polys_def
      cells_def fun_eq_iff)

lemma offsets_after_coefs [simp]:
  "ilrj_of (weno_recon_coefs w) = ilrj_of w" "beta_of (weno_recon_coefs w) = beta_of w"
  "smooth_slots (weno_recon_coefs w) = smooth_slots w"
  by (auto simp: ilrj_of_def beta_of_def smooth_slots_def weno_recon_coefs_def
      cells_def fun_eq_iff)

lemma passes_c:
  "weno_c_ilrj (weno_passes w) = weno_c_ilrj (weno_recon_coefs (weno_recon_polys w))"
  by (simp add: weno_passes_def)

lemma c_frame:
  assumes "c_layout_distinct w" and "(i, l, r, j) \<in> set (c_entries w)" and "i \<notin> set (cells w)"
  shows "weno_c_ilrj (weno_passes w) (ilrj_of w i l r j) = weno_c_ilrj w (ilrj_of w i l r j)"
proof -
  let ?addr = "\<lambda>s. ilrj_of w (fst s) (snd (snd (snd s))) (fst (snd s)) (fst (snd (snd s)))"
  have "ilrj_of w i l r j \<notin> ?addr ` set (coefs_slots w)"
  proof
    assume "ilrj_of w i l r j \<in> ?addr ` set (coefs_slots w)"
    then obtain i' r' j' n' where s: "(i', r', j', n') \<in> set (coefs_slots w)"
      and e: "ilrj_of w i l r j = ilrj_of w i' n' r' j'"
      by auto
    from s have "(i', n', r', j') \<in> set (c_entries w)"
      using cell_in_extent [of i' w] by (auto simp: in_coefs_slots in_c_entries)
    from c_layout_inj [OF assms(1,2) this e] s assms(3) show False
      by (simp add: in_coefs_slots)
  qed
  then show ?thesis
    unfolding passes_c coefs_store offsets_after_polys recon_polys_fields
    by (rule fold_updates_other)
qed

lemma beta_frame:
  assumes "beta_layout_distinct w" and "(i, r, m, n') \<in> set (beta_entries w)"
    and "i \<notin> set (cells w) \<or> n' < m"
  shows "weno_beta (weno_passes w) (beta_of w i r m n') = weno_beta w (beta_of w i r m n')"
proof -
  let ?addr = "\<lambda>s. beta_of w (fst s) (fst (snd s)) (fst (snd (snd s))) (snd (snd (snd s)))"
  have "beta_of w i r m n' \<notin> ?addr ` set (smooth_slots w)"
  proof
    assume "beta_of w i r m n' \<in> ?addr ` set (smooth_slots w)"
    then obtain i' r' m' n'' where s: "(i', r', m', n'') \<in> set (smooth_slots w)"
      and e: "beta_of w i r m n' = beta_of w i' r' m' n''"
      by auto
    from s have "(i', r', m', n'') \<in> set (beta_entries w)"
      using cell_in_extent [of i' w] by (auto simp: in_smooth_slots in_beta_entries)
    from beta_layout_inj [OF assms(1,2) this e] s assms(3) show False
      by (auto simp: in_smooth_slots)
  qed
  then show ?thesis
    unfolding weno_passes_def smooth_store offsets_after_polys offsets_after_coefs
      recon_polys_fields recon_coefs_fields
    by (rule fold_updates_other)
qed

text \<open>
  C4: on sound layouts, after the three passes every entry of the
  reconstruction tensor and of the smoothness tensor whose cell \<open>i\<close> is outside
  \<open>[k-1, nc-(k-1))\<close>, and every entry of the smoothness tensor with \<open>n < m\<close>,
  holds the value it held before.
\<close>

theorem passes_frame:
  assumes "c_layout_distinct w" and "beta_layout_distinct w"
  shows "(\<forall>(i, l, r, j)\<in>set (c_entries w). i \<notin> set (cells w) \<longrightarrow>
            weno_c_ilrj (weno_passes w) (ilrj_of w i l r j) = weno_c_ilrj w (ilrj_of w i l r j)) \<and>
         (\<forall>(i, r, m, n')\<in>set (beta_entries w). i \<notin> set (cells w) \<or> n' < m \<longrightarrow>
            weno_beta (weno_passes w) (beta_of w i r m n') = weno_beta w (beta_of w i r m n'))"
  using c_frame [OF assms(1)] beta_frame [OF assms(2)] by auto

theorem passes_frame_witness:
  "c_layout_distinct weno_ex \<and> beta_layout_distinct weno_ex \<and>
   (0, 0, 1, 1) \<in> set (c_entries weno_ex) \<and> 0 \<notin> set (cells weno_ex) \<and>
   (1, 0, 1, 0) \<in> set (beta_entries weno_ex) \<and> (0::int) < 1 \<and>
   weno_c_ilrj (weno_passes weno_ex) (ilrj_of weno_ex 0 0 1 1) =
     weno_c_ilrj weno_ex (ilrj_of weno_ex 0 0 1 1) \<and>
   weno_beta (weno_passes weno_ex) (beta_of weno_ex 1 0 1 0) =
     weno_beta weno_ex (beta_of weno_ex 1 0 1 0)"
proof -
  have h1: "c_layout_distinct weno_ex" by code_simp
  have h2: "beta_layout_distinct weno_ex" by code_simp
  have h3: "(0, 0, 1, 1) \<in> set (c_entries weno_ex)" by (simp add: in_c_entries weno_ex_def)
  have h4: "0 \<notin> set (cells weno_ex)" by (simp add: set_cells weno_ex_def)
  have h5: "(1, 0, 1, 0) \<in> set (beta_entries weno_ex)" by (simp add: in_beta_entries weno_ex_def)
  have h6: "(0::int) < 1" by simp
  from passes_frame [OF h1 h2] h1 h2 h3 h4 h5 h6 show ?thesis by blast
qed

subsection \<open>Smoothness coefficients and translations of the grid\<close>


lemma poly_mult_n [simp]: "poly_n (poly_mult q1 q2) = poly_n q1 + poly_n q2"
  by (simp add: poly_mult_def)







lemma upto_nth: "0 \<le> a \<Longrightarrow> a \<le> b \<Longrightarrow> [0 .. b] ! nat a = a"
  by (simp add: nth_upto)

lemma grid_increasingD:
  assumes "grid_increasing w" "0 \<le> a" "a < b" "b < weno_nx w"
  shows "weno_x w a < weno_x w b"
proof -
  let ?xs = "map (weno_x w) [0 .. weno_nx w - 1]"
  have len: "length ?xs = nat (weno_nx w)" by simp
  have "nat a < nat b" "nat b < length ?xs"
    using assms by simp_all
  with assms(1) have "?xs ! nat a < ?xs ! nat b"
    unfolding grid_increasing_def by (rule sorted_wrt_nth_less)
  moreover have "?xs ! nat a = weno_x w a" "?xs ! nat b = weno_x w b"
    using assms by (simp_all add: nth_upto)
  ultimately show ?thesis by simp
qed

lemma smooth_d_fold:
  "fold (smooth_d_step multi dx) [1 .. int D] (pm, pn, acc) =
     (poly_diff pm D, poly_diff pn D,
      acc + (\<Sum>d\<leftarrow>[1 .. int D]. of_int multi * dx ^ nat (2 * d - 1) *
               poly_int (poly_mult (poly_diff pm (nat d)) (poly_diff pn (nat d))) 0 dx))"
proof (induction D)
  case 0
  then show ?case by (simp add: poly_diff_def)
next
  case (Suc D)
  have u: "[1 .. int (Suc D)] = [1 .. int D] @ [int D + 1]"
    using upto_rec2 [of 1 "int D + 1"] by (simp add: add.commute)
  have n: "nat (int D + 1) = Suc D" by simp
  show ?case
    unfolding u fold_append o_apply Suc.IH
    by (simp add: smooth_d_step_def poly_diff_def n Let_def)
qed

lemma smooth_l2_eq: "smooth_l2 k dx multi pm pn = spec_smoothness k dx multi pm pn"
proof (cases "1 \<le> k")
  case True
  then have "k - 1 = int (nat (k - 1))" by simp
  then show ?thesis
    using smooth_d_fold [of multi dx "nat (k - 1)" pm pn 0]
    by (simp add: smooth_l2_def spec_smoothness_def)
next
  case False
  then show ?thesis by (simp add: smooth_l2_def spec_smoothness_def)
qed

lemma smooth_value:
  assumes "beta_layout_distinct w" and "(i, r, m, n') \<in> set (smooth_slots w)"
  shows "weno_beta (weno_smoothness_coefs w) (beta_of w i r m n') =
           spec_smoothness (weno_k w) (weno_x w (i + 1) - weno_x w i) (if m = n' then 1 else 2)
             (weno_c_irj_x w (irj_of (weno_k w) i r m))
             (weno_c_irj_x w (irj_of (weno_k w) i r n'))"
proof -
  let ?addr = "\<lambda>s. beta_of w (fst s) (fst (snd s)) (fst (snd (snd s))) (snd (snd (snd s)))"
  have sub: "s \<in> set (beta_entries w)" if "s \<in> set (smooth_slots w)" for s
  proof -
    obtain i' r' m' n'' where s: "s = (i', r', m', n'')" by (metis prod_cases4)
    show ?thesis
      using that cell_in_extent [of i' w] unfolding s
      by (auto simp: in_smooth_slots in_beta_entries)
  qed
  have "inj_on (\<lambda>(i, r, m, n'). beta_of w i r m n') (set (beta_entries w))"
    using assms(1) by (simp add: beta_layout_distinct_def distinct_map)
  then have "inj_on (\<lambda>(i, r, m, n'). beta_of w i r m n') (set (smooth_slots w))"
    by (rule inj_on_subset) (use sub in blast)
  moreover have "(\<lambda>(i, r, m, n'). beta_of w i r m n') = ?addr"
    by (simp add: fun_eq_iff split_beta)
  ultimately have inj: "inj_on ?addr (set (smooth_slots w))" by simp
  let ?val = "\<lambda>s. smooth_l2 (weno_k w) (weno_x w (fst s + 1) - weno_x w (fst s))
                   (if fst (snd (snd s)) = snd (snd (snd s)) then 1 else 2)
                   (weno_c_irj_x w (irj_of (weno_k w) (fst s) (fst (snd s)) (fst (snd (snd s)))))
                   (weno_c_irj_x w (irj_of (weno_k w) (fst s) (fst (snd s)) (snd (snd (snd s)))))"
  have "fold (\<lambda>s b. b(?addr s := ?val s)) (smooth_slots w) (weno_beta w) (?addr (i, r, m, n')) =
          ?val (i, r, m, n')"
    using inj assms(2) by (rule fold_updates_at)
  then show ?thesis
    unfolding smooth_store by (simp add: smooth_l2_eq)
qed


lemma more_fields [simp]:
  "weno_x (weno_recon_polys w) = weno_x w" "weno_xi (weno_recon_polys w) = weno_xi w"
  "weno_nxi (weno_recon_polys w) = weno_nxi w"
  "weno_x (weno_recon_coefs w) = weno_x w" "weno_x (weno_smoothness_coefs w) = weno_x w"
  by (simp_all add: weno_recon_polys_def weno_recon_coefs_def weno_smoothness_coefs_def)

lemma beta_layout_after [simp]:
  "beta_layout_distinct (weno_recon_polys w) = beta_layout_distinct w"
  "beta_layout_distinct (weno_recon_coefs w) = beta_layout_distinct w"
  by (simp_all add: beta_layout_distinct_def beta_entries_def)

lemma smooth_value_passes:
  assumes "beta_layout_distinct w" and "(i, r, m, n') \<in> set (smooth_slots w)"
  shows "weno_beta (weno_passes w) (beta_of w i r m n') =
           spec_smoothness (weno_k w) (weno_x w (i + 1) - weno_x w i) (if m = n' then 1 else 2)
             (weno_c_irj_x (weno_recon_polys w) (irj_of (weno_k w) i r m))
             (weno_c_irj_x (weno_recon_polys w) (irj_of (weno_k w) i r n'))"
  using smooth_value [of "weno_recon_coefs (weno_recon_polys w)" i r m n'] assms
  by (simp add: weno_passes_def)

text \<open>
  C2: on a sound layout, for an interior cell \<open>i\<close>, a shift \<open>r\<close> and
  \<open>0 \<le> m \<le> n < k\<close>, the smoothness entry stored at \<open>(i, r, m, n)\<close> is the sum
  over \<open>d\<close> from \<open>1\<close> to \<open>k - 1\<close> of the multiplicity (1 if \<open>m = n\<close>, else 2)
  times \<open>dx^(2d-1)\<close> times the integral over \<open>[0, dx]\<close> of the product of the
  \<open>d\<close>-th derivatives of the polynomials of \<open>(i, r, m)\<close> and \<open>(i, r, n)\<close>, with
  \<open>dx = x[i+1] - x[i]\<close>; in the whole computation these are the polynomials
  \<^verbatim>\<open>weno_recon_polys\<close> stored.
\<close>

theorem smoothness_entry:
  assumes "beta_layout_distinct w" and "i \<in> set (cells w)" and "r \<in> set [0 .. weno_k w - 1]"
    and "m \<in> set [0 .. weno_k w - 1]" and "n' \<in> set [m .. weno_k w - 1]"
  shows "weno_beta (weno_smoothness_coefs w) (beta_of w i r m n') =
           spec_smoothness (weno_k w) (weno_x w (i + 1) - weno_x w i) (if m = n' then 1 else 2)
             (weno_c_irj_x w (irj_of (weno_k w) i r m))
             (weno_c_irj_x w (irj_of (weno_k w) i r n')) \<and>
         weno_beta (weno_passes w) (beta_of w i r m n') =
           spec_smoothness (weno_k w) (weno_x w (i + 1) - weno_x w i) (if m = n' then 1 else 2)
             (weno_c_irj_x (weno_recon_polys w) (irj_of (weno_k w) i r m))
             (weno_c_irj_x (weno_recon_polys w) (irj_of (weno_k w) i r n'))"
proof -
  have "(i, r, m, n') \<in> set (smooth_slots w)"
    using assms(2-5) by (simp add: in_smooth_slots)
  then show ?thesis
    using assms(1) by (simp add: smooth_value smooth_value_passes)
qed

theorem smoothness_entry_witness:
  "beta_layout_distinct weno_ex \<and> 1 \<in> set (cells weno_ex) \<and>
   0 \<in> set [0 .. weno_k weno_ex - 1] \<and> 1 \<in> set [0 .. weno_k weno_ex - 1] \<and>
   weno_beta (weno_smoothness_coefs weno_ex) (beta_of weno_ex 1 0 0 1) =
     spec_smoothness (weno_k weno_ex) (weno_x weno_ex (1 + 1) - weno_x weno_ex 1)
       (if (0::int) = 1 then 1 else 2)
       (weno_c_irj_x weno_ex (irj_of (weno_k weno_ex) 1 0 0))
       (weno_c_irj_x weno_ex (irj_of (weno_k weno_ex) 1 0 1)) \<and>
   weno_beta (weno_passes weno_ex) (beta_of weno_ex 1 0 0 1) =
     spec_smoothness (weno_k weno_ex) (weno_x weno_ex (1 + 1) - weno_x weno_ex 1)
       (if (0::int) = 1 then 1 else 2)
       (weno_c_irj_x (weno_recon_polys weno_ex) (irj_of (weno_k weno_ex) 1 0 0))
       (weno_c_irj_x (weno_recon_polys weno_ex) (irj_of (weno_k weno_ex) 1 0 1))"
proof -
  have h1: "beta_layout_distinct weno_ex" by code_simp
  have h2: "1 \<in> set (cells weno_ex)" by (simp add: set_cells weno_ex_def)
  have h3: "0 \<in> set [0 .. weno_k weno_ex - 1]" by (simp add: weno_ex_def)
  have h4: "1 \<in> set [0 .. weno_k weno_ex - 1]" by (simp add: weno_ex_def)
  from smoothness_entry [OF h1 h2 h3 h3 h4] h1 h2 h3 h4 show ?thesis by blast
qed



lemma d_scenario_values:
  "d_le (dweno_beta (d_weno_smoothness_coefs (d_weno_recon_polys d_weno_unit))
           (d_beta_of d_weno_unit 1 0 0 0)) (d_of_int 1) \<and>
   d_le (d_of_int 1) (dweno_beta (d_weno_smoothness_coefs (d_weno_recon_polys d_weno_unit))
           (d_beta_of d_weno_unit 1 0 0 0)) \<and>
   d_le (dweno_beta (d_weno_smoothness_coefs (d_weno_recon_polys d_weno_unit))
           (d_beta_of d_weno_unit 1 0 0 1)) (d_of_int (- 2)) \<and>
   d_le (d_of_int (- 2)) (dweno_beta (d_weno_smoothness_coefs (d_weno_recon_polys d_weno_unit))
           (d_beta_of d_weno_unit 1 0 0 1))"
  by code_simp





lemma translate_cells [simp]: "cells (w\<lparr>weno_x := f\<rparr>) = cells w"
  by (simp add: cells_def)

lemma translate_xlocal:
  "xlocal_of (w\<lparr>weno_x := \<lambda>a. weno_x w a + t\<rparr>) i = xlocal_of w i"
  by (simp add: xlocal_of_def)

lemma translate_recon_polys:
  "weno_recon_polys (w\<lparr>weno_x := \<lambda>a. weno_x w a + t\<rparr>) =
     (weno_recon_polys w)\<lparr>weno_x := \<lambda>a. weno_x w a + t\<rparr>"
proof -
  have "recon_i_step (w\<lparr>weno_x := \<lambda>a. weno_x w a + t\<rparr>) = recon_i_step w"
    by (intro ext) (simp add: recon_i_step_def translate_xlocal)
  then show ?thesis
    by (simp add: weno_recon_polys_def)
qed

lemma translate_recon_coefs:
  "weno_recon_coefs (v\<lparr>weno_x := \<lambda>a. weno_x v a + t\<rparr>) =
     (weno_recon_coefs v)\<lparr>weno_x := \<lambda>a. weno_x v a + t\<rparr>"
proof -
  have "coefs_n_step (v\<lparr>weno_x := \<lambda>a. weno_x v a + t\<rparr>) = coefs_n_step v"
    by (intro ext) (simp add: coefs_n_step_def ilrj_of_def)
  then have "coefs_i_step (v\<lparr>weno_x := \<lambda>a. weno_x v a + t\<rparr>) = coefs_i_step v"
    by (intro ext) (simp add: coefs_i_step_def)
  then show ?thesis
    by (simp add: weno_recon_coefs_def)
qed

lemma translate_increasing:
  "grid_increasing (w\<lparr>weno_x := \<lambda>a. weno_x w a + t\<rparr>) = grid_increasing w"
  by (simp add: grid_increasing_def sorted_wrt_map)

text \<open>
  C5: for every translation \<open>t\<close> and every strictly increasing grid, the grid
  with every boundary moved by \<open>t\<close> is again strictly increasing and the three
  passes leave the same reconstruction-coefficient buffer as on the grid itself.
\<close>

theorem translation_invariance:
  assumes "grid_increasing w"
  shows "grid_increasing (w\<lparr>weno_x := \<lambda>a. weno_x w a + t\<rparr>) \<and>
         weno_c_ilrj (weno_passes (w\<lparr>weno_x := \<lambda>a. weno_x w a + t\<rparr>)) =
           weno_c_ilrj (weno_passes w)"
proof -
  have "weno_x (weno_recon_polys w) = weno_x w" by simp
  then have "weno_recon_coefs ((weno_recon_polys w)\<lparr>weno_x := \<lambda>a. weno_x w a + t\<rparr>) =
          (weno_recon_coefs (weno_recon_polys w))\<lparr>weno_x := \<lambda>a. weno_x w a + t\<rparr>"
    using translate_recon_coefs [of "weno_recon_polys w" t] by simp
  then show ?thesis
    using assms by (simp add: weno_passes_def translate_recon_polys translate_increasing)
qed

theorem translation_invariance_witness:
  "grid_increasing weno_ex \<and>
   grid_increasing (weno_ex\<lparr>weno_x := \<lambda>a. weno_x weno_ex a + 10\<rparr>) \<and>
   weno_c_ilrj (weno_passes (weno_ex\<lparr>weno_x := \<lambda>a. weno_x weno_ex a + 10\<rparr>)) =
     weno_c_ilrj (weno_passes weno_ex)"
proof -
  have h: "grid_increasing weno_ex" by code_simp
  from translation_invariance [OF h, of 10] h show ?thesis by blast
qed

subsection \<open>The reconstruction polynomials\<close>

lemma radix_div: "0 \<le> j \<Longrightarrow> j < k \<Longrightarrow> (a * k + j) div k = (a::int)"
  by simp

lemma radix_mod: "0 \<le> j \<Longrightarrow> j < k \<Longrightarrow> (a * k + j) mod k = (j::int)"
  by simp

lemma radix_inj:
  fixes a :: int
  assumes "0 \<le> j" "j < k" "0 \<le> j'" "j' < k" "a * k + j = a' * k + j'"
  shows "a = a' \<and> j = j'"
  using radix_div [OF assms(1,2), of a] radix_div [OF assms(3,4), of a']
    radix_mod [OF assms(1,2), of a] radix_mod [OF assms(3,4), of a'] assms(5)
  by simp

lemma irj_of_inj:
  assumes "0 \<le> r" "r < k" "0 \<le> j" "j < k" "0 \<le> r'" "r' < k" "0 \<le> j'" "j' < k"
    and "irj_of k i r j = irj_of k i' r' j'"
  shows "i = i' \<and> r = r' \<and> j = j'"
proof -
  have "(i * k + r) * k + j = (i' * k + r') * k + j'"
    using assms(9) by (simp add: irj_of_def algebra_simps)
  from radix_inj [OF assms(3,4,7,8) this]
  have "i * k + r = i' * k + r'" and j: "j = j'" by simp_all
  from radix_inj [OF assms(1,2,5,6) this(1)] j show ?thesis by simp
qed

lemma recon_slots_inj:
  "inj_on (\<lambda>s. irj_of (weno_k w) (fst s) (fst (snd s)) (snd (snd s))) (set (recon_slots w))"
proof (rule inj_onI)
  fix s s' assume s: "s \<in> set (recon_slots w)" "s' \<in> set (recon_slots w)"
    and e: "irj_of (weno_k w) (fst s) (fst (snd s)) (snd (snd s)) =
            irj_of (weno_k w) (fst s') (fst (snd s')) (snd (snd s'))"
  obtain i r j where a: "s = (i, r, j)" by (metis prod_cases3)
  obtain i' r' j' where b: "s' = (i', r', j')" by (metis prod_cases3)
  from s have "0 \<le> r" "r < weno_k w" "0 \<le> j" "j < weno_k w"
    "0 \<le> r'" "r' < weno_k w" "0 \<le> j'" "j' < weno_k w"
    unfolding a b by (simp_all add: in_recon_slots)
  from irj_of_inj [OF this] e show "s = s'"
    unfolding a b by simp
qed

lemma recon_polys_value:
  assumes "(i, r, j) \<in> set (recon_slots w)"
  shows "weno_c_irj_x (weno_recon_polys w) (irj_of (weno_k w) i r j) =
           recon_poly (weno_k w) (xlocal_of w i) r j"
proof -
  let ?addr = "\<lambda>s. irj_of (weno_k w) (fst s) (fst (snd s)) (snd (snd s))"
  let ?val = "\<lambda>s. recon_poly (weno_k w) (xlocal_of w (fst s)) (fst (snd s)) (snd (snd s))"
  have "fold (\<lambda>s c. c(?addr s := ?val s)) (recon_slots w) (weno_c_irj_x w) (?addr (i, r, j)) =
          ?val (i, r, j)"
    using recon_slots_inj assms by (rule fold_updates_at)
  then show ?thesis
    unfolding recon_polys_store by simp
qed

lemma recon_fold_eval:
  assumes "set ls \<subseteq> {0 .. k}"
  shows "poly_wf (fold (\<lambda>l q. inplace_poly_add q
                    (inplace_poly_scale (sum_m_loop k xl r l) (1 / a_loop k xl r l)))
                  ls (poly_zero (nat (k - 1)))) \<and>
         poly_n (fold (\<lambda>l q. inplace_poly_add q
                    (inplace_poly_scale (sum_m_loop k xl r l) (1 / a_loop k xl r l)))
                  ls (poly_zero (nat (k - 1)))) = nat (k - 1) \<and>
         poly_eval (fold (\<lambda>l q. inplace_poly_add q
                    (inplace_poly_scale (sum_m_loop k xl r l) (1 / a_loop k xl r l)))
                  ls (poly_zero (nat (k - 1)))) t =
           (\<Sum>l\<leftarrow>ls. poly_eval (sum_m_loop k xl r l) t * (1 / a_loop k xl r l))"
  using assms
proof (induction ls rule: rev_induct)
  case Nil
  then show ?case by simp
next
  case (snoc l ls)
  then have l: "0 \<le> l" "l \<le> k" by auto
  note s = sum_m_loop_eval(1,2) [OF l, of xl r]
  show ?case
    using snoc s by (simp add: eval_add eval_scale)
qed

lemma recon_poly_eval:
  assumes "0 \<le> j"
  shows "poly_wf (recon_poly k xl r j)" "poly_n (recon_poly k xl r j) = nat (k - 1)"
    "poly_eval (recon_poly k xl r j) t =
       recon_formula k (\<lambda>m. xl ! nat (xlocal_index k r m)) j t"
proof -
  have sub: "set [j + 1 .. k] \<subseteq> {0 .. k}" using assms by auto
  note f = recon_fold_eval [OF sub, of xl r t]
  show "poly_wf (recon_poly k xl r j)" "poly_n (recon_poly k xl r j) = nat (k - 1)"
    using f by (simp_all add: recon_poly_def)
  have "poly_eval (recon_poly k xl r j) t =
          (\<Sum>l\<leftarrow>[j + 1 .. k]. poly_eval (sum_m_loop k xl r l) t * (1 / a_loop k xl r l))"
    using f by (simp add: recon_poly_def)
  also have "\<dots> = recon_formula k (\<lambda>m. xl ! nat (xlocal_index k r m)) j t"
    unfolding recon_formula_def
  proof (rule arg_cong [where f = sum_list], rule map_cong [OF refl])
    fix l assume "l \<in> set [j + 1 .. k]"
    then have l: "0 \<le> l" "l \<le> k" using assms by auto
    show "poly_eval (sum_m_loop k xl r l) t * (1 / a_loop k xl r l) =
          (\<Sum>m\<leftarrow>filter (\<lambda>m. m \<noteq> l) [0 .. k].
              \<Prod>n'\<leftarrow>kept l m [0 .. k]. (t - xl ! nat (xlocal_index k r n'))) *
          (1 / (\<Prod>m\<leftarrow>filter (\<lambda>m. m \<noteq> l) [0 .. k].
                  (xl ! nat (xlocal_index k r l) - xl ! nat (xlocal_index k r m))))"
      by (simp only: sum_m_loop_eval(3) [OF l] a_loop_eq)
  qed
  finally show "poly_eval (recon_poly k xl r j) t =
       recon_formula k (\<lambda>m. xl ! nat (xlocal_index k r m)) j t" .
qed

lemma node_of_eq:
  assumes "0 \<le> r" "r < weno_k w" "0 \<le> m" "m \<le> weno_k w"
  shows "node_of w i r m = weno_x w (i - r + m) - weno_x w i"
proof -
  let ?a = "xlocal_index (weno_k w) r m"
  have a: "0 \<le> ?a" "?a \<le> 2 * weno_k w - 1"
    using assms by (simp_all add: xlocal_index_def)
  then have "nat ?a < length [0 .. 2 * weno_k w - 1]" by simp
  then have "xlocal_of w i ! nat ?a =
               weno_x w (x_index (weno_k w) i ([0 .. 2 * weno_k w - 1] ! nat ?a)) - weno_x w i"
    unfolding xlocal_of_def by (rule nth_map)
  also have "[0 .. 2 * weno_k w - 1] ! nat ?a = ?a"
    using a by (simp add: nth_upto)
  also have "x_index (weno_k w) i ?a = i - r + m"
    by (simp add: x_index_def xlocal_index_def)
  finally show ?thesis by (simp add: node_of_def)
qed

lemma denominator_nonzero:
  assumes "grid_increasing w" "weno_nc w = weno_nx w - 1" "i \<in> set (cells w)"
    and "0 \<le> r" "r < weno_k w" "0 \<le> l" "l \<le> weno_k w"
  shows "(\<Prod>m\<leftarrow>filter (\<lambda>m. m \<noteq> l) [0 .. weno_k w]. (node_of w i r l - node_of w i r m)) \<noteq> 0"
proof -
  have "node_of w i r l - node_of w i r m \<noteq> 0"
    if "m \<in> set (filter (\<lambda>m. m \<noteq> l) [0 .. weno_k w])" for m
  proof -
    from that have m: "0 \<le> m" "m \<le> weno_k w" "m \<noteq> l" by auto
    have b: "0 \<le> i - r + l" "i - r + l < weno_nx w" "0 \<le> i - r + m" "i - r + m < weno_nx w"
      using assms(2-7) m by (auto simp: set_cells)
    have "weno_x w (i - r + l) \<noteq> weno_x w (i - r + m)"
    proof (cases "l < m")
      case True
      then have "weno_x w (i - r + l) < weno_x w (i - r + m)"
        using b by (intro grid_increasingD [OF assms(1)]) simp_all
      then show ?thesis by simp
    next
      case False
      then have "weno_x w (i - r + m) < weno_x w (i - r + l)"
        using b m by (intro grid_increasingD [OF assms(1)]) simp_all
      then show ?thesis by simp
    qed
    then show ?thesis
      using assms(4-7) m by (simp add: node_of_eq)
  qed
  then show ?thesis
    by (simp add: prod_list_zero_iff image_iff)
qed


text \<open>
  C1, as stated, fails: in the scenario (\<open>k = 2\<close>, grid \<open>[0,1,2,3,4]\<close>), for the
  interior cell \<open>i = 1\<close>, the shift \<open>r = 0\<close> and the neighbour \<open>j = 0\<close>, the stored
  polynomial has the value \<open>3/2\<close> at \<open>0\<close>, the polynomial of the claim the
  value \<open>0\<close>.
\<close>

theorem recon_poly_not_as_stated:
  "1 \<in> set (cells weno_ex) \<and> 0 \<in> set [0 .. weno_k weno_ex - 1] \<and>
   poly_eval (weno_c_irj_x (weno_recon_polys weno_ex) (irj_of (weno_k weno_ex) 1 0 0)) 0 = 3 / 2 \<and>
   spec_recon_poly (weno_k weno_ex) (node_of weno_ex 1 0) 0 0 = 0 \<and>
   poly_eval (weno_c_irj_x (weno_recon_polys weno_ex) (irj_of (weno_k weno_ex) 1 0 0)) 0 \<noteq>
     spec_recon_poly (weno_k weno_ex) (node_of weno_ex 1 0) 0 0"
proof -
  have 1: "1 \<in> set (cells weno_ex)" by (simp add: set_cells weno_ex_def)
  have 2: "0 \<in> set [0 .. weno_k weno_ex - 1]" by (simp add: weno_ex_def)
  have 3: "poly_eval (weno_c_irj_x (weno_recon_polys weno_ex) (irj_of (weno_k weno_ex) 1 0 0)) 0
             = 3 / 2"
    by code_simp
  have 4: "spec_recon_poly (weno_k weno_ex) (node_of weno_ex 1 0) 0 0 = 0"
    by code_simp
  show ?thesis using 1 2 3 4 by simp
qed

text \<open>
  C1, amended: for every interior cell \<open>i\<close>, shift \<open>r\<close> and neighbour \<open>j\<close>
  in \<open>[0, k)\<close>, the polynomial stored at \<open>(i, r, j)\<close> has the degree budget
  \<open>k - 1\<close> and equals the sum over \<open>l\<close> from \<open>j + 1\<close> to \<open>k\<close> of: the sum
  over \<open>m \<noteq> l\<close> of the product over \<open>n \<noteq> l, m\<close> of \<open>x - node[n]\<close>, scaled
  by the reciprocal of the product over \<open>m \<noteq> l\<close> of \<open>node[l] - node[m]\<close>;
  here \<open>node[m] = xlocal[il-r+m] = x[i-r+m] - x[i]\<close>, and on a strictly
  increasing grid no such product of differences is zero.
\<close>

theorem recon_poly_stored:
  assumes "i \<in> set (cells w)" and "r \<in> set [0 .. weno_k w - 1]"
    and "j \<in> set [0 .. weno_k w - 1]"
  shows "poly_wf (weno_c_irj_x (weno_recon_polys w) (irj_of (weno_k w) i r j)) \<and>
         poly_n (weno_c_irj_x (weno_recon_polys w) (irj_of (weno_k w) i r j)) = nat (weno_k w - 1) \<and>
         (\<forall>t. poly_eval (weno_c_irj_x (weno_recon_polys w) (irj_of (weno_k w) i r j)) t =
                recon_formula (weno_k w) (node_of w i r) j t) \<and>
         (\<forall>m\<in>set [0 .. weno_k w]. node_of w i r m = weno_x w (i - r + m) - weno_x w i) \<and>
         (grid_increasing w \<and> weno_nc w = weno_nx w - 1 \<longrightarrow>
            (\<forall>l\<in>set [j + 1 .. weno_k w].
               (\<Prod>m\<leftarrow>filter (\<lambda>m. m \<noteq> l) [0 .. weno_k w].
                  (node_of w i r l - node_of w i r m)) \<noteq> 0))"
proof -
  have rj: "0 \<le> r" "r < weno_k w" "0 \<le> j" "j < weno_k w"
    using assms(2,3) by simp_all
  then have "(i, r, j) \<in> set (recon_slots w)"
    using assms(1) by (simp add: in_recon_slots)
  then have v: "weno_c_irj_x (weno_recon_polys w) (irj_of (weno_k w) i r j) =
                  recon_poly (weno_k w) (xlocal_of w i) r j"
    by (rule recon_polys_value)
  have n: "(\<lambda>m. xlocal_of w i ! nat (xlocal_index (weno_k w) r m)) = node_of w i r"
    by (simp add: node_of_def fun_eq_iff)
  have e: "poly_eval (recon_poly (weno_k w) (xlocal_of w i) r j) t =
             recon_formula (weno_k w) (node_of w i r) j t" for t
    using recon_poly_eval(3) [OF rj(3), of "weno_k w" "xlocal_of w i" r t] by (simp only: n)
  have d: "(\<Prod>m\<leftarrow>filter (\<lambda>m. m \<noteq> l) [0 .. weno_k w]. (node_of w i r l - node_of w i r m)) \<noteq> 0"
    if "grid_increasing w" "weno_nc w = weno_nx w - 1" "l \<in> set [j + 1 .. weno_k w]" for l
    using that(3) rj by (intro denominator_nonzero [OF that(1,2) assms(1)]) simp_all
  show ?thesis
    using recon_poly_eval(1,2) [OF rj(3)] e d rj by (simp add: v node_of_eq)
qed

theorem recon_poly_stored_witness:
  "1 \<in> set (cells weno_ex) \<and> 0 \<in> set [0 .. weno_k weno_ex - 1] \<and>
   grid_increasing weno_ex \<and> weno_nc weno_ex = weno_nx weno_ex - 1 \<and>
   1 \<in> set [0 + 1 .. weno_k weno_ex] \<and>
   poly_wf (weno_c_irj_x (weno_recon_polys weno_ex) (irj_of (weno_k weno_ex) 1 0 0)) \<and>
   poly_eval (weno_c_irj_x (weno_recon_polys weno_ex) (irj_of (weno_k weno_ex) 1 0 0)) 0 =
     recon_formula (weno_k weno_ex) (node_of weno_ex 1 0) 0 0 \<and>
   (\<Prod>m\<leftarrow>filter (\<lambda>m. m \<noteq> 1) [0 .. weno_k weno_ex].
      (node_of weno_ex 1 0 1 - node_of weno_ex 1 0 m)) \<noteq> 0"
proof -
  have h1: "1 \<in> set (cells weno_ex)" by (simp add: set_cells weno_ex_def)
  have h2: "0 \<in> set [0 .. weno_k weno_ex - 1]" by (simp add: weno_ex_def)
  have h3: "grid_increasing weno_ex" by code_simp
  have h4: "weno_nc weno_ex = weno_nx weno_ex - 1" by (simp add: weno_ex_def)
  have h5: "1 \<in> set [0 + 1 .. weno_k weno_ex]" by (simp add: weno_ex_def)
  from recon_poly_stored [OF h1 h2 h2] h1 h2 h3 h4 h5 show ?thesis by blast
qed

subsection \<open>The binomial products inside weno_recon_polys\<close>

lemma prd_n_run_snoc:
  "prd_n_run k xl r l m (ns @ [n']) = prd_n_step k xl r l m n' (prd_n_run k xl r l m ns)"
  by (simp add: prd_n_run_def)

lemma prd_n_loop_split:
  "[0 .. k] = ns @ n' # rest \<Longrightarrow>
   prd_n_loop k xl r l m = fold (prd_n_step k xl r l m) rest (prd_n_run k xl r l m (ns @ [n']))"
  by (simp add: prd_n_loop_def prd_n_run_def)

lemma sum_m_loop_calls:
  assumes "0 \<le> l" "l \<le> k"
  shows "poly_eval (sum_m_loop k xl r l) t =
           (\<Sum>m\<leftarrow>filter (\<lambda>m. m \<noteq> l) [0 .. k]. poly_eval (prd_n_loop k xl r l m) t)"
proof -
  have "(\<Sum>m\<leftarrow>filter (\<lambda>m. m \<noteq> l) [0 .. k]. poly_eval (prd_n_loop k xl r l m) t) =
        (\<Sum>m\<leftarrow>filter (\<lambda>m. m \<noteq> l) [0 .. k].
            \<Prod>n'\<leftarrow>kept l m [0 .. k]. (t - xl ! nat (xlocal_index k r n')))"
  proof (rule arg_cong [where f = sum_list], rule map_cong [OF refl])
    fix m assume "m \<in> set (filter (\<lambda>m. m \<noteq> l) [0 .. k])"
    then have m: "0 \<le> m" "m \<le> k" "l \<noteq> m" by auto
    show "poly_eval (prd_n_loop k xl r l m) t =
            (\<Prod>n'\<leftarrow>kept l m [0 .. k]. (t - xl ! nat (xlocal_index k r n')))"
      by (rule prd_n_loop_eval(3) [OF assms m])
  qed
  then show ?thesis
    by (simp only: sum_m_loop_eval(3) [OF assms])
qed

lemma recon_poly_calls:
  assumes "0 \<le> j"
  shows "poly_eval (recon_poly k xl r j) t =
           (\<Sum>l\<leftarrow>[j + 1 .. k].
              (\<Sum>m\<leftarrow>filter (\<lambda>m. m \<noteq> l) [0 .. k]. poly_eval (prd_n_loop k xl r l m) t) *
              (1 / a_loop k xl r l))"
proof -
  have sub: "set [j + 1 .. k] \<subseteq> {0 .. k}" using assms by auto
  have "poly_eval (recon_poly k xl r j) t =
          (\<Sum>l\<leftarrow>[j + 1 .. k]. poly_eval (sum_m_loop k xl r l) t * (1 / a_loop k xl r l))"
    using recon_fold_eval [OF sub, of xl r t] by (simp add: recon_poly_def)
  also have "\<dots> = (\<Sum>l\<leftarrow>[j + 1 .. k].
              (\<Sum>m\<leftarrow>filter (\<lambda>m. m \<noteq> l) [0 .. k]. poly_eval (prd_n_loop k xl r l m) t) *
              (1 / a_loop k xl r l))"
  proof (rule arg_cong [where f = sum_list], rule map_cong [OF refl])
    fix l assume "l \<in> set [j + 1 .. k]"
    then have l: "0 \<le> l" "l \<le> k" using assms by auto
    show "poly_eval (sum_m_loop k xl r l) t * (1 / a_loop k xl r l) =
            (\<Sum>m\<leftarrow>filter (\<lambda>m. m \<noteq> l) [0 .. k]. poly_eval (prd_n_loop k xl r l m) t) *
            (1 / a_loop k xl r l)"
      by (simp only: sum_m_loop_calls [OF l])
  qed
  finally show ?thesis .
qed

text \<open>
  C7: \<^verbatim>\<open>inplace_poly_mult_xpa\<close> turns \<open>p(x)\<close> into \<open>(x + a) p(x)\<close> less the
  one term \<open>p[n] x^(n+1)\<close> that does not fit the degree \<open>n\<close>. Inside
  \<^verbatim>\<open>weno_recon_polys\<close>, for an interior cell \<open>i\<close>, \<open>r\<close> and \<open>j\<close> in
  \<open>[0, k)\<close>, \<open>l\<close> from \<open>j + 1\<close> to \<open>k\<close> and \<open>m \<noteq> l\<close> in \<open>[0, k]\<close>: at every
  round \<open>n'\<close> of the loop \<^verbatim>\<open>prd_n_loop\<close> that calls the macro (the rounds
  before it are \<open>ns\<close>), the state of the loop has degree below \<open>k - 1\<close>, so the
  call computes \<open>(x + a) p(x)\<close> exactly; the loop applies \<open>k - 1\<close> factors and
  ends with their exact product; and the polynomial \<^verbatim>\<open>weno_recon_polys\<close>
  stores at \<open>(i, r, j)\<close> is built from these products.
\<close>

theorem mult_xpa_exact_in_recon_polys:
  assumes "i \<in> set (cells w)" and "r \<in> set [0 .. weno_k w - 1]"
    and "j \<in> set [0 .. weno_k w - 1]" and "l \<in> set [j + 1 .. weno_k w]"
    and "m \<in> set [0 .. weno_k w]" and "m \<noteq> l"
    and "[0 .. weno_k w] = ns @ n' # rest" and "n' \<noteq> l" and "n' \<noteq> m"
  shows "(\<forall>q a t. poly_wf q \<longrightarrow>
            poly_eval (inplace_poly_mult_xpa q a) t =
              (t + a) * poly_eval q t - poly_p q ! poly_n q * t ^ Suc (poly_n q)) \<and>
         poly_wf (prd_n_run (weno_k w) (xlocal_of w i) r l m ns) \<and>
         poly_n (prd_n_run (weno_k w) (xlocal_of w i) r l m ns) = nat (weno_k w - 1) \<and>
         poly_degree_less (prd_n_run (weno_k w) (xlocal_of w i) r l m ns) (nat (weno_k w - 1)) \<and>
         prd_n_run (weno_k w) (xlocal_of w i) r l m (ns @ [n']) =
           inplace_poly_mult_xpa (prd_n_run (weno_k w) (xlocal_of w i) r l m ns)
             (- (xlocal_of w i ! nat (xlocal_index (weno_k w) r n'))) \<and>
         (\<forall>t. poly_eval (prd_n_run (weno_k w) (xlocal_of w i) r l m (ns @ [n'])) t =
               (t - xlocal_of w i ! nat (xlocal_index (weno_k w) r n')) *
               poly_eval (prd_n_run (weno_k w) (xlocal_of w i) r l m ns) t) \<and>
         prd_n_loop (weno_k w) (xlocal_of w i) r l m =
           fold (prd_n_step (weno_k w) (xlocal_of w i) r l m) rest
             (prd_n_run (weno_k w) (xlocal_of w i) r l m (ns @ [n'])) \<and>
         length (kept l m [0 .. weno_k w]) = nat (weno_k w - 1) \<and>
         (\<forall>t. poly_eval (prd_n_loop (weno_k w) (xlocal_of w i) r l m) t =
               (\<Prod>n'\<leftarrow>kept l m [0 .. weno_k w].
                  (t - xlocal_of w i ! nat (xlocal_index (weno_k w) r n')))) \<and>
         (\<forall>t. poly_eval (weno_c_irj_x (weno_recon_polys w) (irj_of (weno_k w) i r j)) t =
               (\<Sum>l\<leftarrow>[j + 1 .. weno_k w].
                  (\<Sum>m\<leftarrow>filter (\<lambda>m. m \<noteq> l) [0 .. weno_k w].
                     poly_eval (prd_n_loop (weno_k w) (xlocal_of w i) r l m) t) *
                  (1 / a_loop (weno_k w) (xlocal_of w i) r l)))"
proof -
  let ?k = "weno_k w" and ?xl = "xlocal_of w i"
  let ?Q = "prd_n_run ?k ?xl r l m ns"
  have rj: "0 \<le> r" "r < ?k" "0 \<le> j" "j < ?k"
    using assms(2,3) by simp_all
  have lm: "0 \<le> l" "l \<le> ?k" "0 \<le> m" "m \<le> ?k" "l \<noteq> m"
    using assms(3-6) by auto
  have "kept l m [0 .. ?k] = kept l m ns @ n' # kept l m rest"
    using assms(7-9) by simp
  then have "length (kept l m [0 .. ?k]) = Suc (length (kept l m ns) + length (kept l m rest))"
    by simp
  then have len: "Suc (length (kept l m ns)) \<le> nat (?k - 1)"
    using length_kept [OF lm] by simp
  then have "length (kept l m ns) \<le> nat (?k - 1)" by simp
  note Q = prd_n_fold [OF this, of ?k ?xl r]
  have wf: "poly_wf ?Q" and n: "poly_n ?Q = nat (?k - 1)"
    and d: "poly_degree_less ?Q (Suc (length (kept l m ns)))"
    using Q by (simp_all add: prd_n_run_def)
  have dk: "poly_degree_less ?Q (nat (?k - 1))"
    using wf d len by (rule poly_degree_less_mono)
  have step: "prd_n_run ?k ?xl r l m (ns @ [n']) =
                inplace_poly_mult_xpa ?Q (- (?xl ! nat (xlocal_index ?k r n')))"
    using assms(8,9) by (simp add: prd_n_run_snoc prd_n_step_mult)
  have ev: "poly_eval (prd_n_run ?k ?xl r l m (ns @ [n'])) t =
              (t - ?xl ! nat (xlocal_index ?k r n')) * poly_eval ?Q t" for t
    using wf dk n by (simp add: step eval_mult_xpa_exact)
  note split = prd_n_loop_split [OF assms(7), of ?xl r l m]
  note final = prd_n_loop_eval(3) [OF lm, of ?xl r]
  have "(i, r, j) \<in> set (recon_slots w)"
    using assms(1) rj by (simp add: in_recon_slots)
  then have v: "weno_c_irj_x (weno_recon_polys w) (irj_of ?k i r j) = recon_poly ?k ?xl r j"
    by (rule recon_polys_value)
  note stored = recon_poly_calls [OF rj(3), of ?k ?xl r]
  have macro: "\<forall>q a t. poly_wf q \<longrightarrow>
            poly_eval (inplace_poly_mult_xpa q a) t =
              (t + a) * poly_eval q t - poly_p q ! poly_n q * t ^ Suc (poly_n q)"
    by (simp add: eval_mult_xpa)
  show ?thesis
  proof (intro conjI)
    show "\<forall>q a t. poly_wf q \<longrightarrow>
            poly_eval (inplace_poly_mult_xpa q a) t =
              (t + a) * poly_eval q t - poly_p q ! poly_n q * t ^ Suc (poly_n q)"
      by (rule macro)
    show "poly_wf ?Q" by (rule wf)
    show "poly_n ?Q = nat (?k - 1)" by (rule n)
    show "poly_degree_less ?Q (nat (?k - 1))" by (rule dk)
    show "prd_n_run ?k ?xl r l m (ns @ [n']) =
            inplace_poly_mult_xpa ?Q (- (?xl ! nat (xlocal_index ?k r n')))"
      by (rule step)
    show "\<forall>t. poly_eval (prd_n_run ?k ?xl r l m (ns @ [n'])) t =
            (t - ?xl ! nat (xlocal_index ?k r n')) * poly_eval ?Q t"
      by (intro allI) (rule ev)
    show "prd_n_loop ?k ?xl r l m =
            fold (prd_n_step ?k ?xl r l m) rest (prd_n_run ?k ?xl r l m (ns @ [n']))"
      by (rule split)
    show "length (kept l m [0 .. ?k]) = nat (?k - 1)"
      by (rule length_kept [OF lm])
    show "\<forall>t. poly_eval (prd_n_loop ?k ?xl r l m) t =
            (\<Prod>n'\<leftarrow>kept l m [0 .. ?k]. (t - ?xl ! nat (xlocal_index ?k r n')))"
      by (intro allI) (rule final)
    show "\<forall>t. poly_eval (weno_c_irj_x (weno_recon_polys w) (irj_of ?k i r j)) t =
            (\<Sum>l\<leftarrow>[j + 1 .. ?k].
               (\<Sum>m\<leftarrow>filter (\<lambda>m. m \<noteq> l) [0 .. ?k].
                  poly_eval (prd_n_loop ?k ?xl r l m) t) *
               (1 / a_loop ?k ?xl r l))"
      unfolding v by (intro allI) (rule stored)
  qed
qed

theorem mult_xpa_exact_in_recon_polys_witness:
  "1 \<in> set (cells weno_ex) \<and> 0 \<in> set [0 .. weno_k weno_ex - 1] \<and>
   1 \<in> set [0 + 1 .. weno_k weno_ex] \<and> 0 \<in> set [0 .. weno_k weno_ex] \<and> (0::int) \<noteq> 1 \<and>
   [0 .. weno_k weno_ex] = [0, 1] @ 2 # [] \<and> (2::int) \<noteq> 1 \<and> (2::int) \<noteq> 0 \<and>
   poly_degree_less (prd_n_run (weno_k weno_ex) (xlocal_of weno_ex 1) 0 1 0 [0, 1])
     (nat (weno_k weno_ex - 1)) \<and>
   prd_n_run (weno_k weno_ex) (xlocal_of weno_ex 1) 0 1 0 ([0, 1] @ [2]) =
     inplace_poly_mult_xpa (prd_n_run (weno_k weno_ex) (xlocal_of weno_ex 1) 0 1 0 [0, 1])
       (- (xlocal_of weno_ex 1 ! nat (xlocal_index (weno_k weno_ex) 0 2))) \<and>
   prd_n_loop (weno_k weno_ex) (xlocal_of weno_ex 1) 0 1 0 =
     fold (prd_n_step (weno_k weno_ex) (xlocal_of weno_ex 1) 0 1 0) []
       (prd_n_run (weno_k weno_ex) (xlocal_of weno_ex 1) 0 1 0 ([0, 1] @ [2])) \<and>
   length (kept 1 0 [0 .. weno_k weno_ex]) = nat (weno_k weno_ex - 1) \<and>
   poly_eval (weno_c_irj_x (weno_recon_polys weno_ex) (irj_of (weno_k weno_ex) 1 0 0)) 0 =
     (\<Sum>l\<leftarrow>[0 + 1 .. weno_k weno_ex].
        (\<Sum>m\<leftarrow>filter (\<lambda>m. m \<noteq> l) [0 .. weno_k weno_ex].
           poly_eval (prd_n_loop (weno_k weno_ex) (xlocal_of weno_ex 1) 0 l m) 0) *
        (1 / a_loop (weno_k weno_ex) (xlocal_of weno_ex 1) 0 l))"
proof -
  have h1: "1 \<in> set (cells weno_ex)" by (simp add: set_cells weno_ex_def)
  have h2: "0 \<in> set [0 .. weno_k weno_ex - 1]" by (simp add: weno_ex_def)
  have h3: "1 \<in> set [0 + 1 .. weno_k weno_ex]" by (simp add: weno_ex_def)
  have h4: "0 \<in> set [0 .. weno_k weno_ex]" by (simp add: weno_ex_def)
  have h5: "(0::int) \<noteq> 1" by simp
  have h6: "[0 .. weno_k weno_ex] = [0, 1] @ 2 # []" by code_simp
  have h7: "(2::int) \<noteq> 1" by simp
  have h8: "(2::int) \<noteq> 0" by simp
  from mult_xpa_exact_in_recon_polys [OF h1 h2 h2 h3 h4 h5 h6 h7 h8]
    h1 h2 h3 h4 h5 h6 h7 h8
  show ?thesis by blast
qed

end
